theory Spec2Isabelle
  imports Complex_Main "HOL-Library.Multiset" "HOL-Library.AList"
begin

section \<open>The dark pool engine (DarkPoolEngine) as HOL functions\<close>

text \<open>
  The engine is the class \<open>DarkPoolEngine\<close>. Its methods become functions that take the
  engine state and return the new one. Order objects are shared by reference between the
  per-token arrays of \<open>orderBooks\<close> and the matches handed to the settlement timers, and
  their \<open>status\<close> field is assigned through both, so orders live in an explicit store
  (\<open>heap\<close>: a reference is an index) and the books and matches hold references.
  Everything that the engine draws from outside (\<open>uuidv4()\<close>, \<open>Date.now()\<close>,
  \<open>Math.random()\<close>, the outcome of \<open>anoncoinService.executeSwap\<close>) is an argument of the
  function that draws it.
\<close>

subsection \<open>JavaScript values\<close>

text \<open>
  Numbers that the engine computes with: the IEEE special values are kept apart, finite
  numbers are real numbers (rounding is not modelled).
\<close>

datatype number = NaN | PInf | NInf | Fin real

fun num_add :: "number \<Rightarrow> number \<Rightarrow> number" where
  "num_add NaN y = NaN"
| "num_add x NaN = NaN"
| "num_add PInf NInf = NaN"
| "num_add NInf PInf = NaN"
| "num_add PInf y = PInf"
| "num_add x PInf = PInf"
| "num_add NInf y = NInf"
| "num_add x NInf = NInf"
| "num_add (Fin a) (Fin b) = Fin (a + b)"



fun num_mul :: "number \<Rightarrow> number \<Rightarrow> number" where
  "num_mul NaN y = NaN"
| "num_mul x NaN = NaN"
| "num_mul (Fin a) (Fin b) = Fin (a * b)"
| "num_mul (Fin a) PInf = (if a = 0 then NaN else if 0 < a then PInf else NInf)"
| "num_mul (Fin a) NInf = (if a = 0 then NaN else if 0 < a then NInf else PInf)"
| "num_mul PInf (Fin b) = (if b = 0 then NaN else if 0 < b then PInf else NInf)"
| "num_mul NInf (Fin b) = (if b = 0 then NaN else if 0 < b then NInf else PInf)"
| "num_mul PInf PInf = PInf"
| "num_mul PInf NInf = NInf"
| "num_mul NInf PInf = NInf"
| "num_mul NInf NInf = PInf"

text \<open>\<open>x / 2\<close>.\<close>

fun num_half :: "number \<Rightarrow> number" where
  "num_half (Fin a) = Fin (a / 2)"
| "num_half x = x"



fun Math_max :: "number \<Rightarrow> number \<Rightarrow> number" where
  "Math_max NaN y = NaN"
| "Math_max x NaN = NaN"
| "Math_max PInf y = PInf"
| "Math_max x PInf = PInf"
| "Math_max NInf y = y"
| "Math_max x NInf = x"
| "Math_max (Fin a) (Fin b) = Fin (max a b)"

fun Math_min :: "number \<Rightarrow> number \<Rightarrow> number" where
  "Math_min NaN y = NaN"
| "Math_min x NaN = NaN"
| "Math_min NInf y = NInf"
| "Math_min x NInf = NInf"
| "Math_min PInf y = y"
| "Math_min x PInf = x"
| "Math_min (Fin a) (Fin b) = Fin (min a b)"

text \<open>
  The values of the fields of a submitted order: what a JSON request body can hold in a
  field, objects and arrays left out. JSON numbers are finite, so \<open>===\<close> on these values
  and the key comparison of \<open>Map\<close> are equality.
\<close>

datatype jsval = JUndefined | JNull | JBool bool | JNum real | JStr string

fun truthy :: "jsval \<Rightarrow> bool" where
  "truthy JUndefined = False"
| "truthy JNull = False"
| "truthy (JBool b) = b"
| "truthy (JNum r) = (r \<noteq> 0)"
| "truthy (JStr s) = (s \<noteq> [])"

fun is_string :: "jsval \<Rightarrow> bool" where
  "is_string (JStr s) = True"
| "is_string v = False"

datatype error = InvalidOrderStructure | TypeError | SyntaxError | SwapError string

subsection \<open>The runtime: \<open>Buffer.from\<close> and \<open>JSON.parse\<close>\<close>

text \<open>
  \<open>Buffer.from(x, 'base64')\<close> and \<open>JSON.parse(buffer.toString())\<close> belong to the Node
  runtime, not to the repository; the engine is parametric in them. \<open>Buffer_from\<close> returns
  the bytes or throws; \<open>JSON_parse\<close> returns what the engine reads of the parsed value, the
  properties \<open>amount\<close>, \<open>maxPrice\<close> and \<open>minPrice\<close> (\<open>None\<close>: the property is
  \<open>undefined\<close>; the properties are numbers), or throws (the \<open>SyntaxError\<close> of the parser,
  or the \<open>TypeError\<close> of reading a property of \<open>null\<close>).
\<close>

record payload =
  p_amount :: "number option"
  p_maxPrice :: "number option"
  p_minPrice :: "number option"

record runtime =
  Buffer_from :: "jsval \<Rightarrow> error + nat list"
  JSON_parse :: "nat list \<Rightarrow> error + payload"

text \<open>
  The instance used for concrete runs. Base64 decoding as Node does it: characters outside
  the alphabet are skipped, decoding stops at the first \<open>=\<close>, both the standard and the
  URL-safe alphabet are read; anything but a string is a \<open>TypeError\<close>.
\<close>

definition unbase64 :: "char \<Rightarrow> nat option" where
  "unbase64 c =
     (let n = (of_char c :: nat) in
      if 65 \<le> n \<and> n \<le> 90 then Some (n - 65)
      else if 97 \<le> n \<and> n \<le> 122 then Some (n - 71)
      else if 48 \<le> n \<and> n \<le> 57 then Some (n + 4)
      else if n = 43 \<or> n = 45 then Some 62
      else if n = 47 \<or> n = 95 then Some 63
      else None)"

fun sextets :: "string \<Rightarrow> nat list" where
  "sextets [] = []"
| "sextets (c # cs) =
     (if c = CHR ''='' then []
      else case unbase64 c of None \<Rightarrow> sextets cs | Some v \<Rightarrow> v # sextets cs)"

fun octets :: "nat list \<Rightarrow> nat list" where
  "octets (a # b # c # d # rest) =
     (a * 4 + b div 16) # ((b mod 16) * 16 + c div 4) # ((c mod 4) * 64 + d) # octets rest"
| "octets [a, b, c] = [a * 4 + b div 16, (b mod 16) * 16 + c div 4]"
| "octets [a, b] = [a * 4 + b div 16]"
| "octets xs = []"

fun node_Buffer_from :: "jsval \<Rightarrow> error + nat list" where
  "node_Buffer_from (JStr s) = Inr (octets (sextets s))"
| "node_Buffer_from v = Inl TypeError"

text \<open>
  A JSON parser is outside this development. The concrete runs parse three texts:
  \<open>{}\<close>, \<open>{"amount":10,"maxPrice":4}\<close> and \<open>{"amount":15,"minPrice":2}\<close>, given here by
  their bytes; the stand-in below is right on those and is not used on anything else.
\<close>

definition json_10_4 :: "nat list" where
  "json_10_4 = [123, 34, 97, 109, 111, 117, 110, 116, 34, 58, 49, 48, 44, 34, 109, 97, 120, 80,
                114, 105, 99, 101, 34, 58, 52, 125]"

definition json_15_2 :: "nat list" where
  "json_15_2 = [123, 34, 97, 109, 111, 117, 110, 116, 34, 58, 49, 53, 44, 34, 109, 105, 110, 80,
                114, 105, 99, 101, 34, 58, 50, 125]"

definition example_JSON_parse :: "nat list \<Rightarrow> error + payload" where
  "example_JSON_parse bytes =
     (if bytes = [123, 125]
      then Inr \<lparr>p_amount = None, p_maxPrice = None, p_minPrice = None\<rparr>
      else if bytes = json_10_4
      then Inr \<lparr>p_amount = Some (Fin 10), p_maxPrice = Some (Fin 4), p_minPrice = None\<rparr>
      else if bytes = json_15_2
      then Inr \<lparr>p_amount = Some (Fin 15), p_maxPrice = None, p_minPrice = Some (Fin 2)\<rparr>
      else Inl SyntaxError)"

definition node :: runtime where
  "node = \<lparr>Buffer_from = node_Buffer_from, JSON_parse = example_JSON_parse\<rparr>"

subsection \<open>Orders, matches, executions, the engine\<close>

text \<open>The argument of \<open>submitOrder\<close>; a field that is missing is \<open>JUndefined\<close>.\<close>

record encrypted_order =
  payload :: jsval
  eo_commitment :: jsval
  eo_nullifier :: jsval
  eo_tokenAddress :: jsval
  eo_encryptedSide :: jsval

record order =
  order_id :: string
  encryptedPayload :: jsval
  commitment :: jsval
  nullifier :: jsval
  tokenAddress :: jsval
  timestamp :: int
  status :: string
  encryptedSide :: jsval

type_synonym ref = nat

record match =
  match_id :: string
  buyOrder :: ref
  sellOrder :: ref
  m_tokenAddress :: jsval
  m_timestamp :: int

record execution =
  execution_id :: string
  matchId :: string
  e_tokenAddress :: jsval
  price :: number
  e_amount :: number
  e_timestamp :: int
  buyCommitment :: jsval
  sellCommitment :: jsval
  executedOnChain :: bool
  swapStatus :: string

text \<open>The values of \<open>pendingMatches\<close>: \<open>{...execution, side, fillAmount}\<close>.\<close>

record notification = execution +
  side :: string
  fillAmount :: number

record engine =
  heap :: "order list"
  orderBooks :: "(jsval \<times> ref list) list"
  pendingMatches :: "jsval \<rightharpoonup> notification"
  anoncoinService :: bool
  matchingInterval :: nat
  minBatchSize :: nat
  maxBatchSize :: nat
  executionDelayMin :: nat
  executionDelayMax :: nat
  totalOrders :: nat
  totalMatches :: nat
  totalVolume :: number
  totalExecuted :: nat
  lastMatchTime :: "int option"
  lastExecutionTime :: "int option"

text \<open>
  The constructor. \<open>service\<close>: whether an \<open>anoncoinService\<close> was passed; \<open>interval\<close>: the
  value of \<open>parseInt(process.env.DARK_POOL_MATCHING_INTERVAL_MS) || 5000\<close>.
\<close>

definition newEngine :: "bool \<Rightarrow> nat \<Rightarrow> engine" where
  "newEngine service interval =
     \<lparr>heap = [], orderBooks = [], pendingMatches = Map.empty, anoncoinService = service,
      matchingInterval = interval, minBatchSize = 2, maxBatchSize = 100,
      executionDelayMin = 1000, executionDelayMax = 10000,
      totalOrders = 0, totalMatches = 0, totalVolume = Fin 0, totalExecuted = 0,
      lastMatchTime = None, lastExecutionTime = None\<rparr>"

text \<open>
  An order object is read through its reference \<open>r\<close> as \<open>heap s ! r\<close>; the assignment
  \<open>o.status = st\<close> is an update of the store.
\<close>

definition set_status :: "order list \<Rightarrow> ref \<Rightarrow> string \<Rightarrow> order list" where
  "set_status h r st = h[r := (h ! r)\<lparr>status := st\<rparr>]"

subsection \<open>Submission\<close>

text \<open>\<open>order && order.payload && ... && order.encryptedSide\<close>, read as a condition.\<close>

fun validateEncryptedOrder :: "encrypted_order option \<Rightarrow> bool" where
  "validateEncryptedOrder None = False"
| "validateEncryptedOrder (Some ord) =
     (truthy (payload ord) \<and> truthy (eo_commitment ord) \<and> truthy (eo_nullifier ord) \<and>
      truthy (eo_tokenAddress ord) \<and> truthy (eo_encryptedSide ord))"

definition getEstimatedMatchTime :: "engine \<Rightarrow> int \<Rightarrow> real" where
  "getEstimatedMatchTime s now =
     (let nextCycle = real (matchingInterval s);
          executionDelay = (real (executionDelayMin s) + real (executionDelayMax s)) / 2
      in real_of_int now + nextCycle + executionDelay)"

record receipt =
  r_orderId :: string
  r_timestamp :: int
  r_status :: string
  estimatedMatchTime :: real
  r_commitment :: jsval

text \<open>
  \<open>submitOrder(encryptedOrder)\<close>, with \<open>orderId\<close> the result of \<open>uuidv4()\<close>, \<open>ts\<close> and
  \<open>now\<close> the two results of \<open>Date.now()\<close>. The result is the state left behind and what the
  call throws or returns. After the order is stored, the log line calls
  \<open>order.tokenAddress.substring\<close>, a \<open>TypeError\<close> when the token address is not a string.
\<close>

definition submitOrder ::
  "engine \<Rightarrow> encrypted_order option \<Rightarrow> string \<Rightarrow> int \<Rightarrow> int \<Rightarrow> engine \<times> (error + receipt)" where
  "submitOrder s encryptedOrder orderId ts now =
     (case encryptedOrder of
        None \<Rightarrow> (s, Inl InvalidOrderStructure)
      | Some eo \<Rightarrow>
          if \<not> validateEncryptedOrder encryptedOrder then (s, Inl InvalidOrderStructure)
          else
            let ord = \<lparr>order_id = orderId, encryptedPayload = payload eo,
                       commitment = eo_commitment eo, nullifier = eo_nullifier eo,
                       tokenAddress = eo_tokenAddress eo, timestamp = ts,
                       status = ''pending'', encryptedSide = eo_encryptedSide eo\<rparr>;
                r = length (heap s);
                books = (case map_of (orderBooks s) (tokenAddress ord) of
                           None \<Rightarrow> AList.update (tokenAddress ord) [] (orderBooks s)
                         | Some orders \<Rightarrow> orderBooks s);
                orders = (case map_of books (tokenAddress ord) of
                            None \<Rightarrow> [] | Some orders \<Rightarrow> orders);
                s' = s\<lparr>heap := heap s @ [ord],
                       orderBooks := AList.update (tokenAddress ord) (orders @ [r]) books,
                       totalOrders := totalOrders s + 1\<rparr>
            in if \<not> is_string (tokenAddress ord) then (s', Inl TypeError)
               else (s', Inr \<lparr>r_orderId = orderId, r_timestamp = ts, r_status = ''pending'',
                              estimatedMatchTime = getEstimatedMatchTime s' now,
                              r_commitment = commitment ord\<rparr>))"

subsection \<open>Cancellation\<close>

fun findIndex :: "('a \<Rightarrow> bool) \<Rightarrow> 'a list \<Rightarrow> nat option" where
  "findIndex P [] = None"
| "findIndex P (x # xs) = (if P x then Some 0 else map_option Suc (findIndex P xs))"

text \<open>\<open>orders.splice(index, 1)\<close>.\<close>

definition splice1 :: "'a list \<Rightarrow> nat \<Rightarrow> 'a list" where
  "splice1 xs i = take i xs @ drop (Suc i) xs"

definition cancellable :: "order list \<Rightarrow> jsval \<Rightarrow> jsval \<Rightarrow> ref \<Rightarrow> bool" where
  "cancellable h n c r =
     (nullifier (h ! r) = n \<and> commitment (h ! r) = c \<and> status (h ! r) = ''pending'')"

text \<open>The loop over \<open>orderBooks.entries()\<close>, in the insertion order of the map.\<close>

fun cancelLoop ::
  "order list \<Rightarrow> jsval \<Rightarrow> jsval \<Rightarrow> (jsval \<times> ref list) list \<Rightarrow> (jsval \<times> ref list) list option" where
  "cancelLoop h n c [] = None"
| "cancelLoop h n c ((tok, orders) # rest) =
     (case findIndex (cancellable h n c) orders of
        Some index \<Rightarrow> Some ((tok, splice1 orders index) # rest)
      | None \<Rightarrow> map_option ((#) (tok, orders)) (cancelLoop h n c rest))"

record cancel_result =
  success :: bool
  message :: string

definition cancelOrder :: "engine \<Rightarrow> jsval \<Rightarrow> jsval \<Rightarrow> engine \<times> cancel_result" where
  "cancelOrder s n c =
     (case cancelLoop (heap s) n c (orderBooks s) of
        Some books \<Rightarrow> (s\<lparr>orderBooks := books\<rparr>, \<lparr>success = True, message = ''Order cancelled''\<rparr>)
      | None \<Rightarrow> (s, \<lparr>success = False, message = ''Order not found or already matched''\<rparr>))"

subsection \<open>Matching\<close>

text \<open>
  \<open>decryptSide\<close>: \<open>buffer[0] % 2 === 0\<close> is false on an empty buffer (\<open>undefined % 2\<close> is
  \<open>NaN\<close>); the \<open>catch\<close> returns \<open>'buy'\<close>.
\<close>

definition decryptSide :: "runtime \<Rightarrow> jsval \<Rightarrow> string" where
  "decryptSide rt encSide =
     (case Buffer_from rt encSide of
        Inl e \<Rightarrow> ''buy''
      | Inr buffer \<Rightarrow>
          (case buffer of
             [] \<Rightarrow> ''sell''
           | b # bs \<Rightarrow> if b mod 2 = 0 then ''buy'' else ''sell''))"

text \<open>\<open>[array[i], array[j]] = [array[j], array[i]]\<close>; here \<open>j \<le> i < array.length\<close>.\<close>

definition swap :: "'a list \<Rightarrow> nat \<Rightarrow> nat \<Rightarrow> 'a list" where
  "swap array i j = array[i := array ! j, j := array ! i]"

text \<open>
  \<open>shuffleArray\<close>: the loop \<open>for (i = array.length - 1; i > 0; i--)\<close>; \<open>random i\<close> is the
  result of \<open>Math.random()\<close> in the iteration with index \<open>i\<close>. On an empty array the loop
  does not run.
\<close>

fun shuffleLoop :: "(nat \<Rightarrow> real) \<Rightarrow> nat \<Rightarrow> 'a list \<Rightarrow> 'a list" where
  "shuffleLoop random 0 array = array"
| "shuffleLoop random (Suc k) array =
     shuffleLoop random k (swap array (Suc k) (nat \<lfloor>random (Suc k) * real (Suc k + 1)\<rfloor>))"

definition shuffleArray :: "(nat \<Rightarrow> real) \<Rightarrow> 'a list \<Rightarrow> 'a list" where
  "shuffleArray random array = shuffleLoop random (length array - 1) array"

definition isPending :: "order list \<Rightarrow> ref \<Rightarrow> bool" where
  "isPending h r = (status (h ! r) = ''pending'')"

definition isBuy :: "runtime \<Rightarrow> order list \<Rightarrow> ref \<Rightarrow> bool" where
  "isBuy rt h r = (decryptSide rt (encryptedSide (h ! r)) = ''buy'')"

text \<open>
  The body of the pairing loop at index \<open>i\<close>: push the match, mark both orders.
  \<open>uuid i\<close> and \<open>now i\<close> are the results of \<open>uuidv4()\<close> and \<open>Date.now()\<close> there.
\<close>

definition matchStep ::
  "jsval \<Rightarrow> ref list \<Rightarrow> ref list \<Rightarrow> (nat \<Rightarrow> string) \<Rightarrow> (nat \<Rightarrow> int) \<Rightarrow>
   order list \<times> match list \<Rightarrow> nat \<Rightarrow> order list \<times> match list" where
  "matchStep tok buyOrders sellOrders uuid now acc i =
     (set_status (set_status (fst acc) (buyOrders ! i) ''matched'') (sellOrders ! i) ''matched'',
      snd acc @ [\<lparr>match_id = uuid i, buyOrder = buyOrders ! i, sellOrder = sellOrders ! i,
                  m_tokenAddress = tok, m_timestamp = now i\<rparr>])"

text \<open>
  \<open>findMatches(tokenAddress, orders)\<close>; \<open>randomBuy\<close> and \<open>randomSell\<close> feed the two
  shuffles. It returns the engine (the orders' statuses changed) and the matches.
\<close>

definition findMatches ::
  "runtime \<Rightarrow> engine \<Rightarrow> jsval \<Rightarrow> ref list \<Rightarrow> (nat \<Rightarrow> real) \<Rightarrow> (nat \<Rightarrow> real) \<Rightarrow>
   (nat \<Rightarrow> string) \<Rightarrow> (nat \<Rightarrow> int) \<Rightarrow> engine \<times> match list" where
  "findMatches rt s tok orders randomBuy randomSell uuid now =
     (let pendingOrders = filter (isPending (heap s)) orders;
          buyOrders = shuffleArray randomBuy (fst (partition (isBuy rt (heap s)) pendingOrders));
          sellOrders = shuffleArray randomSell (snd (partition (isBuy rt (heap s)) pendingOrders));
          minMatches = min (length buyOrders) (length sellOrders);
          res = foldl (matchStep tok buyOrders sellOrders uuid now) (heap s, []) [0..<minMatches]
      in (s\<lparr>heap := fst res\<rparr>, snd res))"

subsection \<open>Settlement\<close>

record details =
  amount :: number
  maxPrice :: number
  minPrice :: number

text \<open>\<open>x || d\<close> for a property \<open>x\<close> that is a number or \<open>undefined\<close>.\<close>

fun or_default :: "number option \<Rightarrow> number \<Rightarrow> number" where
  "or_default None d = d"
| "or_default (Some NaN) d = d"
| "or_default (Some (Fin a)) d = (if a = 0 then d else Fin a)"
| "or_default (Some x) d = x"

definition defaultDetails :: details where
  "defaultDetails = \<lparr>amount = Fin 100, maxPrice = PInf, minPrice = Fin 0\<rparr>"

definition decryptOrderForExecution :: "runtime \<Rightarrow> order \<Rightarrow> details" where
  "decryptOrderForExecution rt ord =
     (case Buffer_from rt (encryptedPayload ord) of
        Inl e \<Rightarrow> defaultDetails
      | Inr bytes \<Rightarrow>
          (case JSON_parse rt bytes of
             Inl e \<Rightarrow> defaultDetails
           | Inr p \<Rightarrow> \<lparr>amount = or_default (p_amount p) (Fin 100),
                       maxPrice = or_default (p_maxPrice p) PInf,
                       minPrice = or_default (p_minPrice p) (Fin 0)\<rparr>))"

definition midpoint :: "details \<Rightarrow> details \<Rightarrow> number" where
  "midpoint buyDetails sellDetails = num_half (num_add (maxPrice buyDetails) (minPrice sellDetails))"

text \<open>\<open>calculateExecutionPrice\<close>; \<open>random\<close> is the result of \<open>Math.random()\<close>.\<close>

definition calculateExecutionPrice :: "details \<Rightarrow> details \<Rightarrow> real \<Rightarrow> number" where
  "calculateExecutionPrice buyDetails sellDetails random =
     (let mid = midpoint buyDetails sellDetails;
          noise = num_mul (num_mul (Fin (random - 0.5)) (Fin 0.001)) mid
      in Math_max (Fin 0) (num_add mid noise))"

definition removeMatchedOrders :: "engine \<Rightarrow> match \<Rightarrow> engine" where
  "removeMatchedOrders s m =
     (case map_of (orderBooks s) (m_tokenAddress m) of
        None \<Rightarrow> s
      | Some orders \<Rightarrow>
          s\<lparr>orderBooks := AList.update (m_tokenAddress m)
               (filter (\<lambda>r. order_id (heap s ! r) \<noteq> order_id (heap s ! buyOrder m) \<and>
                            order_id (heap s ! r) \<noteq> order_id (heap s ! sellOrder m)) orders)
               (orderBooks s)\<rparr>)"

definition getRandomDelay :: "engine \<Rightarrow> real \<Rightarrow> int" where
  "getRandomDelay s random =
     \<lfloor>random * (real (executionDelayMax s) - real (executionDelayMin s)) + real (executionDelayMin s)\<rfloor>"

record swap_request =
  fromToken :: jsval
  toToken :: string
  sw_amount :: number
  slippage :: real
  sw_executionPrice :: number
  stealthAddress :: jsval
  sw_commitment :: jsval
  sw_nullifier :: jsval

text \<open>
  The part of \<open>executeMatch\<close> after the swap: the execution record, the statistics, the
  removal from the book, the two entries of \<open>pendingMatches\<close> (the sell entry is written
  last). \<open>now 0\<close>, \<open>now 1\<close>, \<open>now 2\<close> are the three results of \<open>Date.now()\<close>.
\<close>

definition recordExecution ::
  "engine \<Rightarrow> match \<Rightarrow> string \<Rightarrow> number \<Rightarrow> number \<Rightarrow> (nat \<Rightarrow> int) \<Rightarrow> engine \<times> execution" where
  "recordExecution s m executionId executionPrice matchedAmount now =
     (let ex = \<lparr>execution_id = executionId, matchId = match_id m,
                e_tokenAddress = m_tokenAddress m, price = executionPrice,
                e_amount = matchedAmount, e_timestamp = now 0,
                buyCommitment = commitment (heap s ! buyOrder m),
                sellCommitment = commitment (heap s ! sellOrder m),
                executedOnChain = True, swapStatus = ''completed''\<rparr>;
          s1 = s\<lparr>totalMatches := totalMatches s + 1,
                 totalExecuted := totalExecuted s + 1,
                 totalVolume := num_add (totalVolume s) (num_mul matchedAmount executionPrice),
                 lastMatchTime := Some (now 1),
                 lastExecutionTime := Some (now 2)\<rparr>;
          s2 = removeMatchedOrders s1 m;
          s3 = s2\<lparr>pendingMatches := (pendingMatches s2)
                 (nullifier (heap s ! buyOrder m) \<mapsto>
                    execution.extend ex \<lparr>side = ''buy'', fillAmount = matchedAmount\<rparr>)\<rparr>;
          s4 = s3\<lparr>pendingMatches := (pendingMatches s3)
                 (nullifier (heap s ! sellOrder m) \<mapsto>
                    execution.extend ex \<lparr>side = ''sell'', fillAmount = matchedAmount\<rparr>)\<rparr>
      in (s4, ex))"

text \<open>
  The first part of \<open>executeMatch\<close>: the decrypted details, the price and the amount, and
  the object passed to \<open>anoncoinService.executeSwap\<close> (\<open>match.otherToken\<close> and
  \<open>order.stealthAddress\<close> are set nowhere, hence \<open>'SOL'\<close> and \<open>undefined\<close>).
\<close>

definition executionPriceOf :: "runtime \<Rightarrow> engine \<Rightarrow> match \<Rightarrow> real \<Rightarrow> number" where
  "executionPriceOf rt s m random =
     calculateExecutionPrice (decryptOrderForExecution rt (heap s ! buyOrder m))
                             (decryptOrderForExecution rt (heap s ! sellOrder m)) random"

definition matchedAmountOf :: "runtime \<Rightarrow> engine \<Rightarrow> match \<Rightarrow> number" where
  "matchedAmountOf rt s m =
     Math_min (amount (decryptOrderForExecution rt (heap s ! buyOrder m)))
              (amount (decryptOrderForExecution rt (heap s ! sellOrder m)))"

definition swapRequest :: "runtime \<Rightarrow> engine \<Rightarrow> match \<Rightarrow> real \<Rightarrow> swap_request" where
  "swapRequest rt s m random =
     \<lparr>fromToken = m_tokenAddress m, toToken = ''SOL'', sw_amount = matchedAmountOf rt s m,
      slippage = 0.01, sw_executionPrice = executionPriceOf rt s m random,
      stealthAddress = JUndefined,
      sw_commitment = commitment (heap s ! buyOrder m),
      sw_nullifier = nullifier (heap s ! buyOrder m)\<rparr>"

text \<open>
  \<open>executeMatch(match)\<close>. \<open>executeSwap\<close> is what \<open>anoncoinService.executeSwap\<close> does with
  this request: it throws (\<open>Inl\<close>) or returns a transaction id. The third component lists
  the requests sent to the service. Between the call of the service and its answer nothing
  is read that another operation can change. The log lines and the event sent through
  \<open>io\<close> are left out; \<open>io\<close> and the logger are taken to return.
\<close>

definition executeMatch ::
  "runtime \<Rightarrow> engine \<Rightarrow> match \<Rightarrow> string \<Rightarrow> real \<Rightarrow> (swap_request \<Rightarrow> error + string) \<Rightarrow>
   (nat \<Rightarrow> int) \<Rightarrow> engine \<times> (error + execution) \<times> swap_request list" where
  "executeMatch rt s m executionId random executeSwap now =
     (let executionPrice = executionPriceOf rt s m random;
          matchedAmount = matchedAmountOf rt s m
      in if anoncoinService s then
           (case executeSwap (swapRequest rt s m random) of
              Inl swapError \<Rightarrow>
                (s\<lparr>heap := set_status (set_status (heap s) (buyOrder m) ''pending'')
                                       (sellOrder m) ''pending''\<rparr>,
                 Inl swapError, [swapRequest rt s m random])
            | Inr transactionId \<Rightarrow>
                (case recordExecution s m executionId executionPrice matchedAmount now of
                   (s', ex) \<Rightarrow> (s', Inr ex, [swapRequest rt s m random])))
         else
           (case recordExecution s m executionId executionPrice matchedAmount now of
              (s', ex) \<Rightarrow> (s', Inr ex, [])))"

text \<open>
  The callback that \<open>executeMatches\<close> hands to \<open>setTimeout\<close>: \<open>executeMatch\<close>, and in the
  \<open>catch\<close> both orders are set to \<open>'pending'\<close>.
\<close>

definition timerCallback ::
  "runtime \<Rightarrow> engine \<Rightarrow> match \<Rightarrow> string \<Rightarrow> real \<Rightarrow> (swap_request \<Rightarrow> error + string) \<Rightarrow>
   (nat \<Rightarrow> int) \<Rightarrow> engine" where
  "timerCallback rt s m executionId random executeSwap now =
     (case executeMatch rt s m executionId random executeSwap now of
        (s', Inl e, calls) \<Rightarrow>
          s'\<lparr>heap := set_status (set_status (heap s') (buyOrder m) ''pending'')
                                 (sellOrder m) ''pending''\<rparr>
      | (s', Inr ex, calls) \<Rightarrow> s')"

definition checkMatchStatus :: "engine \<Rightarrow> jsval \<Rightarrow> notification option" where
  "checkMatchStatus s n = pendingMatches s n"

text \<open>The per-token entry of \<open>getStats().pools\<close>.\<close>

record pool_stats =
  pendingOrders :: nat
  hasLiquidity :: bool

definition poolStats :: "engine \<Rightarrow> ref list \<Rightarrow> pool_stats" where
  "poolStats s orders =
     (let pending = length (filter (isPending (heap s)) orders)
      in \<lparr>pendingOrders = pending, hasLiquidity = (pending \<ge> minBatchSize s)\<rparr>)"

subsection \<open>The matching cycle and the timers\<close>

text \<open>
  \<open>executeMatches(matches)\<close> only starts one timer per match; the timers are the pairs of
  a delay and a match.
\<close>

definition executeMatches :: "engine \<Rightarrow> (nat \<Rightarrow> real) \<Rightarrow> match list \<Rightarrow> (int \<times> match) list" where
  "executeMatches s randomDelay matches =
     map (\<lambda>i. (getRandomDelay s (randomDelay i), matches ! i)) [0..<length matches]"

text \<open>What one matching cycle draws for the book it visits as number \<open>k\<close>.\<close>

record cycle_draws =
  randomBuy :: "nat \<Rightarrow> nat \<Rightarrow> real"
  randomSell :: "nat \<Rightarrow> nat \<Rightarrow> real"
  matchUuid :: "nat \<Rightarrow> nat \<Rightarrow> string"
  matchNow :: "nat \<Rightarrow> nat \<Rightarrow> int"
  randomDelay :: "nat \<Rightarrow> nat \<Rightarrow> real"

text \<open>
  The body of the loop of \<open>runMatchingCycle\<close> for one entry of \<open>orderBooks\<close>: the gate on
  \<open>orders.length\<close>, then \<open>findMatches\<close> and, if there are matches, \<open>executeMatches\<close>.
  It returns the engine, the matches formed for this token and the timers started.
\<close>

definition cycleToken ::
  "runtime \<Rightarrow> cycle_draws \<Rightarrow> nat \<Rightarrow> engine \<Rightarrow> jsval \<Rightarrow> ref list \<Rightarrow>
   engine \<times> match list \<times> (int \<times> match) list" where
  "cycleToken rt d k s tok orders =
     (if length orders < minBatchSize s then (s, [], [])
      else
        (case findMatches rt s tok orders (randomBuy d k) (randomSell d k) (matchUuid d k) (matchNow d k) of
           (s', matches) \<Rightarrow>
             if length matches > 0 then (s', matches, executeMatches s' (randomDelay d k) matches)
             else (s', matches, [])))"

fun cycleLoop ::
  "runtime \<Rightarrow> cycle_draws \<Rightarrow> nat \<Rightarrow> (jsval \<times> ref list) list \<Rightarrow> engine \<Rightarrow> (int \<times> match) list \<Rightarrow>
   engine \<times> (int \<times> match) list" where
  "cycleLoop rt d k [] s timers = (s, timers)"
| "cycleLoop rt d k ((tok, orders) # rest) s timers =
     (case cycleToken rt d k s tok orders of
        (s', matches, started) \<Rightarrow> cycleLoop rt d (Suc k) rest s' (timers @ started))"

definition runMatchingCycle ::
  "runtime \<Rightarrow> cycle_draws \<Rightarrow> engine \<Rightarrow> (int \<times> match) list \<Rightarrow> engine \<times> (int \<times> match) list" where
  "runMatchingCycle rt d s timers = cycleLoop rt d 0 (orderBooks s) s timers"

text \<open>
  The engine together with its running timers, and the events that change them: the three
  entry points and a timer that fires. A timer fires at any time after it was started (the
  delays are not compared).
\<close>

record world =
  eng :: engine
  timers :: "(int \<times> match) list"

datatype event =
    Submit "encrypted_order option" string int int
  | Cancel jsval jsval
  | Cycle cycle_draws
  | Fire nat string real "swap_request \<Rightarrow> error + string" "nat \<Rightarrow> int"

fun apply_event :: "runtime \<Rightarrow> world \<Rightarrow> event \<Rightarrow> world" where
  "apply_event rt w (Submit eo orderId ts now) = w\<lparr>eng := fst (submitOrder (eng w) eo orderId ts now)\<rparr>"
| "apply_event rt w (Cancel n c) = w\<lparr>eng := fst (cancelOrder (eng w) n c)\<rparr>"
| "apply_event rt w (Cycle d) =
     (case runMatchingCycle rt d (eng w) (timers w) of (s', ts') \<Rightarrow> \<lparr>eng = s', timers = ts'\<rparr>)"
| "apply_event rt w (Fire k executionId random executeSwap now) =
     (if k < length (timers w)
      then \<lparr>eng = timerCallback rt (eng w) (snd (timers w ! k)) executionId random executeSwap now,
            timers = splice1 (timers w) k\<rparr>
      else w)"

definition run :: "runtime \<Rightarrow> world \<Rightarrow> event list \<Rightarrow> world" where
  "run rt w evs = foldl (apply_event rt) w evs"

definition newWorld :: "bool \<Rightarrow> nat \<Rightarrow> world" where
  "newWorld service interval = \<lparr>eng = newEngine service interval, timers = []\<rparr>"

subsection \<open>Predicates used in the statements\<close>

text \<open>Some book holds an order that \<open>cancelOrder\<close> accepts for this nullifier and commitment.\<close>

definition book_has :: "order list \<Rightarrow> jsval \<Rightarrow> jsval \<Rightarrow> (jsval \<times> ref list) list \<Rightarrow> bool" where
  "book_has h n c books = (\<exists>b\<in>set books. \<exists>r\<in>set (snd b). cancellable h n c r)"

text \<open>
  A field that is missing or empty, in the words of the specification: \<open>undefined\<close>,
  \<open>null\<close> or the empty string.
\<close>

definition missing_or_empty :: "jsval \<Rightarrow> bool" where
  "missing_or_empty v = (v = JUndefined \<or> v = JNull \<or> v = JStr [])"

subsection \<open>Example orders and engines\<close>

text \<open>
  \<open>e30=\<close> is the base64 text of \<open>{}\<close>; \<open>AA==\<close> is one byte 0 (a buy), \<open>AQ==\<close> one byte 1
  (a sell).
\<close>

definition order_A :: encrypted_order where
  "order_A = \<lparr>payload = JStr ''e30='', eo_commitment = JStr ''cA'', eo_nullifier = JStr ''nA'',
              eo_tokenAddress = JStr ''T'', eo_encryptedSide = JStr ''AA==''\<rparr>"

definition order_B :: encrypted_order where
  "order_B = \<lparr>payload = JStr ''e30='', eo_commitment = JStr ''cB'', eo_nullifier = JStr ''nB'',
              eo_tokenAddress = JStr ''T'', eo_encryptedSide = JStr ''AQ==''\<rparr>"


text \<open>Every result of \<open>Math.random()\<close> lies in \<open>[0, 1)\<close>.\<close>

definition unit_draws :: "(nat \<Rightarrow> real) \<Rightarrow> bool" where
  "unit_draws random = (\<forall>k. 0 \<le> random k \<and> random k < 1)"

text \<open>The match pushed at index \<open>i\<close>, and a store in which the orders of \<open>P\<close> are marked.\<close>

definition mkMatch :: "jsval \<Rightarrow> ref list \<Rightarrow> ref list \<Rightarrow> (nat \<Rightarrow> string) \<Rightarrow> (nat \<Rightarrow> int) \<Rightarrow> nat \<Rightarrow> match" where
  "mkMatch tok B S uuid now i =
     \<lparr>match_id = uuid i, buyOrder = B ! i, sellOrder = S ! i, m_tokenAddress = tok, m_timestamp = now i\<rparr>"

definition mark :: "ref set \<Rightarrow> order list \<Rightarrow> order list" where
  "mark P h = map (\<lambda>r. if r \<in> P then (h ! r)\<lparr>status := ''matched''\<rparr> else h ! r) [0..<length h]"

text \<open>
  The pending orders of a book that the side resolver puts on the buy side, and those it
  puts on the sell side.
\<close>

definition pendingBuys :: "runtime \<Rightarrow> engine \<Rightarrow> ref list \<Rightarrow> ref list" where
  "pendingBuys rt s orders = filter (isBuy rt (heap s)) (filter (isPending (heap s)) orders)"

definition pendingSells :: "runtime \<Rightarrow> engine \<Rightarrow> ref list \<Rightarrow> ref list" where
  "pendingSells rt s orders = filter (\<lambda>r. \<not> isBuy rt (heap s) r) (filter (isPending (heap s)) orders)"



text \<open>
  An order whose \<open>encryptedSide\<close> is the number 5 (\<open>Buffer.from(5, 'base64')\<close> throws a
  \<open>TypeError\<close>), and a new engine after this order and \<open>order_B\<close> were submitted.
\<close>

definition order_N :: encrypted_order where
  "order_N = \<lparr>payload = JStr ''e30='', eo_commitment = JStr ''cN'', eo_nullifier = JStr ''nN'',
              eo_tokenAddress = JStr ''T'', eo_encryptedSide = JNum 5\<rparr>"

definition engine_NB :: engine where
  "engine_NB = fst (submitOrder (fst (submitOrder (newEngine False 5000) (Some order_N) ''id-N'' 1 1))
                      (Some order_B) ''id-B'' 2 2)"


definition draws0 :: cycle_draws where
  "draws0 = \<lparr>randomBuy = (\<lambda>k i. 0), randomSell = (\<lambda>k i. 0), matchUuid = (\<lambda>k i. ''match-1''),
             matchNow = (\<lambda>k i. 4), randomDelay = (\<lambda>k i. 0)\<rparr>"


text \<open>
  A settlement service that accepts every swap, one that rejects every swap, and the
  results of \<open>Date.now()\<close> during a settlement.
\<close>

definition swap_ok :: "swap_request \<Rightarrow> error + string" where
  "swap_ok request = Inr ''tx-1''"

definition swap_rejects :: "swap_request \<Rightarrow> error + string" where
  "swap_rejects request = Inl (SwapError ''rejected'')"

definition now9 :: "nat \<Rightarrow> int" where
  "now9 i = 9"

text \<open>
  A new engine (with or without a settlement service) after \<open>order_A\<close> and \<open>order_B\<close>
  were submitted and a matching cycle ran: one timer holds the match of A with B.
\<close>

definition world_AB :: "bool \<Rightarrow> world" where
  "world_AB service =
     run node (newWorld service 5000)
       [Submit (Some order_A) ''id-A'' 1 1, Submit (Some order_B) ''id-B'' 2 2, Cycle draws0]"

text \<open>
  The same with a settlement service, continued: the settlement of the match succeeds,
  then two orders that reuse the nullifiers of A and of B are submitted and matched.
\<close>

definition world_reuse :: world where
  "world_reuse =
     run node (world_AB True)
       [Fire 0 ''exec-1'' (1/4) swap_ok now9,
        Submit (Some order_A) ''id-A2'' 5 5, Submit (Some order_B) ''id-B2'' 6 6, Cycle draws0]"

text \<open>
  A buy order and a sell order that carry the same nullifier, submitted to a new engine
  without settlement service and matched.
\<close>

definition order_A' :: encrypted_order where
  "order_A' = \<lparr>payload = JStr ''e30='', eo_commitment = JStr ''cB'', eo_nullifier = JStr ''nA'',
               eo_tokenAddress = JStr ''T'', eo_encryptedSide = JStr ''AQ==''\<rparr>"

definition world_same :: world where
  "world_same =
     run node (newWorld False 5000)
       [Submit (Some order_A) ''id-A'' 1 1, Submit (Some order_A') ''id-B'' 2 2, Cycle draws0]"

text \<open>
  The stored forms of \<open>order_A\<close> and \<open>order_B\<close> (with an id, a status and a timestamp),
  the match that a cycle with \<open>draws0\<close> forms of a buy order and a sell order, and the
  execution record of its settlement. The payload \<open>{}\<close> gives the default details, whose
  \<open>maxPrice\<close> is \<open>Infinity\<close>.
\<close>

definition ordA :: "string \<Rightarrow> string \<Rightarrow> int \<Rightarrow> order" where
  "ordA i st t = \<lparr>order_id = i, encryptedPayload = JStr ''e30='', commitment = JStr ''cA'',
       nullifier = JStr ''nA'', tokenAddress = JStr ''T'', timestamp = t, status = st,
       encryptedSide = JStr ''AA==''\<rparr>"

definition ordB :: "string \<Rightarrow> string \<Rightarrow> int \<Rightarrow> order" where
  "ordB i st t = \<lparr>order_id = i, encryptedPayload = JStr ''e30='', commitment = JStr ''cB'',
       nullifier = JStr ''nB'', tokenAddress = JStr ''T'', timestamp = t, status = st,
       encryptedSide = JStr ''AQ==''\<rparr>"

definition match1 :: "ref \<Rightarrow> ref \<Rightarrow> match" where
  "match1 b s = \<lparr>match_id = ''match-1'', buyOrder = b, sellOrder = s, m_tokenAddress = JStr ''T'', m_timestamp = 4\<rparr>"

definition execution1 :: "string \<Rightarrow> number \<Rightarrow> execution" where
  "execution1 i p = \<lparr>execution_id = i, matchId = ''match-1'', e_tokenAddress = JStr ''T'', price = p,
       e_amount = Fin 100, e_timestamp = 9, buyCommitment = JStr ''cA'', sellCommitment = JStr ''cB'',
       executedOnChain = True, swapStatus = ''completed''\<rparr>"

text \<open>
  The engines that the example runs go through: A and B matched; their match settled;
  two more orders with the nullifiers of A and B submitted and matched.
\<close>

definition engine_matched :: "bool \<Rightarrow> engine" where
  "engine_matched service =
     (newEngine service 5000)\<lparr>heap := [ordA ''id-A'' ''matched'' 1, ordB ''id-B'' ''matched'' 2],
        orderBooks := [(JStr ''T'', [0, 1])], totalOrders := 2\<rparr>"

definition engine_settled :: "bool \<Rightarrow> engine" where
  "engine_settled service =
     (engine_matched service)\<lparr>orderBooks := [(JStr ''T'', [])],
        pendingMatches :=
          [JStr ''nA'' \<mapsto> execution.extend (execution1 ''exec-1'' NaN) \<lparr>side = ''buy'', fillAmount = Fin 100\<rparr>,
           JStr ''nB'' \<mapsto> execution.extend (execution1 ''exec-1'' NaN) \<lparr>side = ''sell'', fillAmount = Fin 100\<rparr>],
        totalMatches := 1, totalVolume := NaN, totalExecuted := 1,
        lastMatchTime := Some 9, lastExecutionTime := Some 9\<rparr>"

definition engine_reuse :: engine where
  "engine_reuse =
     (engine_settled True)\<lparr>heap := [ordA ''id-A'' ''matched'' 1, ordB ''id-B'' ''matched'' 2,
                                     ordA ''id-A2'' ''matched'' 5, ordB ''id-B2'' ''matched'' 6],
        orderBooks := [(JStr ''T'', [2, 3])], totalOrders := 4\<rparr>"

definition engine_same :: engine where
  "engine_same =
     (newEngine False 5000)\<lparr>heap := [ordA ''id-A'' ''matched'' 1,
                                       (ordB ''id-B'' ''matched'' 2)\<lparr>nullifier := JStr ''nA''\<rparr>],
        orderBooks := [(JStr ''T'', [0, 1])], totalOrders := 2\<rparr>"

text \<open>
  Orders with prices: P buys 10 at a price of at most 4, Q sells 15 at a price of at
  least 2 (the payloads are the base64 texts of \<open>{"amount":10,"maxPrice":4}\<close> and
  \<open>{"amount":15,"minPrice":2}\<close>); the engine in which they are matched.
\<close>

definition order_P :: encrypted_order where
  "order_P = \<lparr>payload = JStr ''eyJhbW91bnQiOjEwLCJtYXhQcmljZSI6NH0='', eo_commitment = JStr ''cP'',
              eo_nullifier = JStr ''nP'', eo_tokenAddress = JStr ''T'', eo_encryptedSide = JStr ''AA==''\<rparr>"

definition order_Q :: encrypted_order where
  "order_Q = \<lparr>payload = JStr ''eyJhbW91bnQiOjE1LCJtaW5QcmljZSI6Mn0='', eo_commitment = JStr ''cQ'',
              eo_nullifier = JStr ''nQ'', eo_tokenAddress = JStr ''T'', eo_encryptedSide = JStr ''AQ==''\<rparr>"

definition ordP :: "string \<Rightarrow> order" where
  "ordP st = \<lparr>order_id = ''id-P'', encryptedPayload = JStr ''eyJhbW91bnQiOjEwLCJtYXhQcmljZSI6NH0='',
       commitment = JStr ''cP'', nullifier = JStr ''nP'', tokenAddress = JStr ''T'', timestamp = 1,
       status = st, encryptedSide = JStr ''AA==''\<rparr>"

definition ordQ :: "string \<Rightarrow> order" where
  "ordQ st = \<lparr>order_id = ''id-Q'', encryptedPayload = JStr ''eyJhbW91bnQiOjE1LCJtaW5QcmljZSI6Mn0='',
       commitment = JStr ''cQ'', nullifier = JStr ''nQ'', tokenAddress = JStr ''T'', timestamp = 2,
       status = st, encryptedSide = JStr ''AQ==''\<rparr>"

definition world_PQ :: world where
  "world_PQ =
     run node (newWorld False 5000)
       [Submit (Some order_P) ''id-P'' 1 1, Submit (Some order_Q) ''id-Q'' 2 2, Cycle draws0]"

definition engine_PQ :: engine where
  "engine_PQ = (newEngine False 5000)\<lparr>heap := [ordP ''matched'', ordQ ''matched''],
        orderBooks := [(JStr ''T'', [0, 1])], totalOrders := 2\<rparr>"


text \<open>
  Per-book nullifier uniqueness: in every book the orders carry pairwise different
  nullifiers. \<open>refs_valid\<close>: every reference in a book points into the store.
\<close>

definition nullifiers_unique :: "engine \<Rightarrow> bool" where
  "nullifiers_unique s = (\<forall>b\<in>set (orderBooks s). distinct (map (\<lambda>r. nullifier (heap s ! r)) (snd b)))"

definition refs_valid :: "engine \<Rightarrow> bool" where
  "refs_valid s = (\<forall>b\<in>set (orderBooks s). \<forall>r\<in>set (snd b). r < length (heap s))"

text \<open>The orders in the book of a token (none when the token has no book).\<close>

definition bookOf :: "engine \<Rightarrow> jsval \<Rightarrow> ref list" where
  "bookOf s tok = (case map_of (orderBooks s) tok of None \<Rightarrow> [] | Some orders \<Rightarrow> orders)"

text \<open>
  A submission is fresh when the order is rejected or its nullifier differs from the
  nullifier of every order in the book of its token; a run is fresh when each of its
  submissions is fresh in the state it is made in.
\<close>

fun fresh_submit :: "engine \<Rightarrow> event \<Rightarrow> bool" where
  "fresh_submit s (Submit (Some eo) orderId ts now) =
     (validateEncryptedOrder (Some eo) \<longrightarrow>
        eo_nullifier eo \<notin> (\<lambda>r. nullifier (heap s ! r)) ` set (bookOf s (eo_tokenAddress eo)))"
| "fresh_submit s ev = True"

fun fresh_run :: "runtime \<Rightarrow> world \<Rightarrow> event list \<Rightarrow> bool" where
  "fresh_run rt w [] = True"
| "fresh_run rt w (ev # evs) = (fresh_submit (eng w) ev \<and> fresh_run rt (apply_event rt w ev) evs)"

text \<open>Two stores of the same length whose orders carry the same nullifiers.\<close>

definition heap_keeps :: "order list \<Rightarrow> order list \<Rightarrow> bool" where
  "heap_keeps h h' = (length h' = length h \<and> (\<forall>k. nullifier (h' ! k) = nullifier (h ! k)))"

text \<open>A new engine after \<open>order_A\<close> was submitted.\<close>

definition engine_A :: engine where
  "engine_A = fst (submitOrder (newEngine False 5000) (Some order_A) ''id-A'' 1 1)"

text \<open>
  The draws of a pass over one book, by name: every \<open>Math.random()\<close> returns 0, every
  \<open>uuidv4()\<close> returns \<open>match-1\<close>, every \<open>Date.now()\<close> returns 4.
\<close>

definition draw0 :: "nat \<Rightarrow> real" where
  "draw0 k = 0"

definition uuid1 :: "nat \<Rightarrow> string" where
  "uuid1 i = ''match-1''"

definition now4 :: "nat \<Rightarrow> int" where
  "now4 i = 4"

text \<open>Every book holds each of its orders once.\<close>

definition books_distinct :: "engine \<Rightarrow> bool" where
  "books_distinct s = (\<forall>b\<in>set (orderBooks s). distinct (snd b))"

section \<open>Properties\<close>

subsection \<open>Auxiliary facts\<close>

lemma findIndex_None: "findIndex P xs = None \<longleftrightarrow> (\<forall>x\<in>set xs. \<not> P x)"
  by (induction xs) auto

lemma findIndex_Some:
  "findIndex P xs = Some i \<Longrightarrow> i < length xs \<and> P (xs ! i) \<and> (\<forall>j<i. \<not> P (xs ! j))"
proof (induction xs arbitrary: i)
  case Nil
  then show ?case by simp
next
  case (Cons x xs)
  show ?case
  proof (cases "P x")
    case True
    with Cons.prems show ?thesis by simp
  next
    case False
    with Cons.prems obtain k where k: "findIndex P xs = Some k" "i = Suc k"
      by auto
    from Cons.IH[OF k(1)] False k(2) show ?thesis
      by (auto simp: less_Suc_eq_0_disj)
  qed
qed


lemma cancelLoop_Some:
  "cancelLoop h n c books = Some books' \<Longrightarrow>
   \<exists>pre tok orders post i.
      books = pre @ (tok, orders) # post \<and> books' = pre @ (tok, splice1 orders i) # post \<and>
      i < length orders \<and> cancellable h n c (orders ! i) \<and> (\<forall>j<i. \<not> cancellable h n c (orders ! j)) \<and>
      \<not> book_has h n c pre"
proof (induction books arbitrary: books')
  case Nil
  then show ?case by simp
next
  case (Cons b books)
  obtain tok orders where b: "b = (tok, orders)" by (cases b)
  show ?case
  proof (cases "findIndex (cancellable h n c) orders")
    case (Some i)
    with Cons.prems b have "books' = (tok, splice1 orders i) # books" by simp
    with findIndex_Some[OF Some] b show ?thesis
      by (intro exI[of _ "[]"] exI[of _ tok] exI[of _ orders] exI[of _ books] exI[of _ i])
         (simp add: book_has_def)
  next
    case None
    with Cons.prems b obtain rest' where r: "cancelLoop h n c books = Some rest'" "books' = (tok, orders) # rest'"
      by auto
    from Cons.IH[OF r(1)] obtain pre tok' orders' post i where
      "books = pre @ (tok', orders') # post" "rest' = pre @ (tok', splice1 orders' i) # post"
      "i < length orders'" "cancellable h n c (orders' ! i)" "\<forall>j<i. \<not> cancellable h n c (orders' ! j)"
      "\<not> book_has h n c pre" by blast
    with None b r(2) show ?thesis
      by (intro exI[of _ "(tok, orders) # pre"] exI[of _ tok'] exI[of _ orders'] exI[of _ post] exI[of _ i])
         (simp add: book_has_def findIndex_None)
  qed
qed


subsection \<open>Cancellation (C4)\<close>



subsection \<open>Structural validation (C8)\<close>

text \<open>
  C8, as the specification words it, fails: a field that is present and not empty but falsy
  (the number 0, or \<open>false\<close>) is rejected too. Here the payload is the number 0.
\<close>

theorem submitOrder_zero_payload_counterexample:
  "\<not> (snd (submitOrder (newEngine False 5000) (Some (order_A\<lparr>payload := JNum 0\<rparr>)) ''id-A'' 1 1)
          = Inl InvalidOrderStructure
       \<longleftrightarrow> (missing_or_empty (payload (order_A\<lparr>payload := JNum 0\<rparr>)) \<or>
            missing_or_empty (eo_commitment (order_A\<lparr>payload := JNum 0\<rparr>)) \<or>
            missing_or_empty (eo_nullifier (order_A\<lparr>payload := JNum 0\<rparr>)) \<or>
            missing_or_empty (eo_tokenAddress (order_A\<lparr>payload := JNum 0\<rparr>)) \<or>
            missing_or_empty (eo_encryptedSide (order_A\<lparr>payload := JNum 0\<rparr>))))"
  by (simp add: submitOrder_def order_A_def missing_or_empty_def)

text \<open>
  C8, amended. \<open>submitOrder\<close> throws the structural-validation error if and only if the
  order is absent or at least one of \<open>payload\<close>, \<open>commitment\<close>, \<open>nullifier\<close>,
  \<open>tokenAddress\<close>, \<open>encryptedSide\<close> is falsy: missing (\<open>undefined\<close>, \<open>null\<close>), the empty
  string, \<open>false\<close> or the number 0. On that rejection the engine is unchanged (every order
  book, the counter \<open>totalOrders\<close>). Validation looks at the payload only to see whether it
  is falsy: two orders that differ in payloads of the same truthiness validate alike.
\<close>

theorem submitOrder_validation:
  "(snd (submitOrder s eo orderId ts now) = Inl InvalidOrderStructure \<longleftrightarrow>
      (case eo of None \<Rightarrow> True
       | Some ord \<Rightarrow> \<not> truthy (payload ord) \<or> \<not> truthy (eo_commitment ord) \<or>
                    \<not> truthy (eo_nullifier ord) \<or> \<not> truthy (eo_tokenAddress ord) \<or>
                    \<not> truthy (eo_encryptedSide ord)))
   \<and> (snd (submitOrder s eo orderId ts now) = Inl InvalidOrderStructure \<longrightarrow>
        fst (submitOrder s eo orderId ts now) = s)
   \<and> (\<not> truthy v \<longleftrightarrow> v = JUndefined \<or> v = JNull \<or> v = JBool False \<or> v = JNum 0 \<or> v = JStr [])
   \<and> (truthy p = truthy p' \<longrightarrow>
        validateEncryptedOrder (Some (ord\<lparr>payload := p\<rparr>)) = validateEncryptedOrder (Some (ord\<lparr>payload := p'\<rparr>)))"
proof -
  have "\<not> truthy v \<longleftrightarrow> v = JUndefined \<or> v = JNull \<or> v = JBool False \<or> v = JNum 0 \<or> v = JStr []"
    by (cases v) auto
  then show ?thesis
    by (auto simp: submitOrder_def Let_def split: option.splits)
qed

text \<open>
  An order without \<open>encryptedSide\<close> is rejected and leaves a new engine as it was; with
  another payload of the same truthiness the order validates as before.
\<close>

theorem submitOrder_validation_witness:
  "snd (submitOrder (newEngine False 5000) (Some (order_A\<lparr>eo_encryptedSide := JUndefined\<rparr>)) ''id-A'' 1 1)
      = Inl InvalidOrderStructure
   \<and> fst (submitOrder (newEngine False 5000) (Some (order_A\<lparr>eo_encryptedSide := JUndefined\<rparr>)) ''id-A'' 1 1)
      = newEngine False 5000
   \<and> truthy (JStr ''e30='') = truthy (JStr ''AAAA'')
   \<and> validateEncryptedOrder (Some (order_A\<lparr>payload := JStr ''e30=''\<rparr>))
      = validateEncryptedOrder (Some (order_A\<lparr>payload := JStr ''AAAA''\<rparr>))"
  using submitOrder_validation[of "newEngine False 5000" "Some (order_A\<lparr>eo_encryptedSide := JUndefined\<rparr>)"
          "''id-A''" 1 1 JUndefined "JStr ''e30=''" "JStr ''AAAA''" order_A]
  by (simp add: order_A_def)

subsection \<open>The shuffle and the pairing loop\<close>

lemma floor_index_le:
  assumes "0 \<le> r" "r < 1"
  shows "nat \<lfloor>r * real (Suc k + 1)\<rfloor> \<le> Suc k"
proof -
  have "r * real (Suc k + 1) < real (Suc k + 1)"
    using assms by (simp add: mult_less_cancel_right1 del: of_nat_Suc of_nat_add)
  then have "\<lfloor>r * real (Suc k + 1)\<rfloor> < int (Suc k + 1)"
    by (simp add: floor_less_iff del: of_nat_Suc of_nat_add)
  then show ?thesis by linarith
qed

lemma mset_swap_array:
  "i < length xs \<Longrightarrow> j < length xs \<Longrightarrow> mset (swap xs i j) = mset xs"
  unfolding swap_def by (rule mset_swap)

lemma length_swap [simp]: "length (swap xs i j) = length xs"
  by (simp add: swap_def)

lemma mset_shuffleLoop:
  "unit_draws random \<Longrightarrow> k < length xs \<Longrightarrow> mset (shuffleLoop random k xs) = mset xs"
proof (induction k arbitrary: xs)
  case 0
  then show ?case by simp
next
  case (Suc k)
  let ?j = "nat \<lfloor>random (Suc k) * real (Suc k + 1)\<rfloor>"
  from Suc.prems(1) have "?j \<le> Suc k"
    by (intro floor_index_le) (simp_all add: unit_draws_def)
  with Suc.prems(2) have j: "?j < length xs" by simp
  have "mset (shuffleLoop random k (swap xs (Suc k) ?j)) = mset (swap xs (Suc k) ?j)"
    using Suc.prems by (intro Suc.IH) simp_all
  also have "\<dots> = mset xs"
    using Suc.prems(2) j by (rule mset_swap_array)
  finally show ?case by simp
qed

lemma mset_shuffleArray: "unit_draws random \<Longrightarrow> mset (shuffleArray random xs) = mset xs"
  by (cases xs) (simp_all add: shuffleArray_def mset_shuffleLoop)

lemma length_shuffleArray: "unit_draws random \<Longrightarrow> length (shuffleArray random xs) = length xs"
  using mset_shuffleArray[of random xs] by (metis size_mset)

lemma set_shuffleArray: "unit_draws random \<Longrightarrow> set (shuffleArray random xs) = set xs"
  using mset_shuffleArray[of random xs] by (metis set_mset_mset)


lemma length_mark [simp]: "length (mark P h) = length h"
  by (simp add: mark_def)

lemma nth_mark: "r < length h \<Longrightarrow> mark P h ! r = (if r \<in> P then (h ! r)\<lparr>status := ''matched''\<rparr> else h ! r)"
  by (simp add: mark_def)

lemma mark_empty [simp]: "mark {} h = h"
  by (simp add: list_eq_iff_nth_eq nth_mark)

lemma set_status_mark:
  "r < length h \<Longrightarrow> set_status (mark P h) r ''matched'' = mark (insert r P) h"
  by (auto simp: list_eq_iff_nth_eq nth_mark set_status_def nth_list_update)

lemma foldl_matchStep:
  "n \<le> length B \<Longrightarrow> n \<le> length S \<Longrightarrow> \<forall>r\<in>set B \<union> set S. r < length h \<Longrightarrow>
   foldl (matchStep tok B S uuid now) (h, []) [0..<n] =
     (mark (set (take n B) \<union> set (take n S)) h, map (mkMatch tok B S uuid now) [0..<n])"
proof (induction n)
  case 0
  then show ?case by simp
next
  case (Suc n)
  then have IH: "foldl (matchStep tok B S uuid now) (h, []) [0..<n] =
     (mark (set (take n B) \<union> set (take n S)) h, map (mkMatch tok B S uuid now) [0..<n])"
    by simp
  from Suc.prems have lt: "n < length B" "n < length S" by simp_all
  with Suc.prems(3) have v: "B ! n < length h" "S ! n < length h" by auto
  have sets: "insert (S ! n) (insert (B ! n) (set (take n B) \<union> set (take n S))) =
              set (take (Suc n) B) \<union> set (take (Suc n) S)"
    using lt by (auto simp: take_Suc_conv_app_nth)
  have "foldl (matchStep tok B S uuid now) (h, []) [0..<Suc n] =
        matchStep tok B S uuid now
          (mark (set (take n B) \<union> set (take n S)) h, map (mkMatch tok B S uuid now) [0..<n]) n"
    by (simp add: IH)
  also have "\<dots> = (mark (set (take (Suc n) B) \<union> set (take (Suc n) S)) h,
                     map (mkMatch tok B S uuid now) [0..<Suc n])"
    using v by (simp add: matchStep_def set_status_mark sets mkMatch_def)
  finally show ?case .
qed

lemma findMatches_eq:
  assumes "unit_draws rb" "unit_draws rs" "\<forall>r\<in>set orders. r < length (heap s)"
  shows "findMatches rt s tok orders rb rs uuid now =
     (s\<lparr>heap := mark (set (take (min (length (pendingBuys rt s orders)) (length (pendingSells rt s orders)))
                               (shuffleArray rb (pendingBuys rt s orders))) \<union>
                      set (take (min (length (pendingBuys rt s orders)) (length (pendingSells rt s orders)))
                               (shuffleArray rs (pendingSells rt s orders)))) (heap s)\<rparr>,
      map (mkMatch tok (shuffleArray rb (pendingBuys rt s orders)) (shuffleArray rs (pendingSells rt s orders)) uuid now)
          [0..<min (length (pendingBuys rt s orders)) (length (pendingSells rt s orders))])"
proof -
  let ?B = "shuffleArray rb (pendingBuys rt s orders)"
  let ?S = "shuffleArray rs (pendingSells rt s orders)"
  let ?n = "min (length (pendingBuys rt s orders)) (length (pendingSells rt s orders))"
  have len: "length ?B = length (pendingBuys rt s orders)" "length ?S = length (pendingSells rt s orders)"
    using assms by (simp_all add: length_shuffleArray)
  have "set ?B \<union> set ?S \<subseteq> set orders"
    using assms by (auto simp: set_shuffleArray pendingBuys_def pendingSells_def)
  with assms(3) have valid: "\<forall>r\<in>set ?B \<union> set ?S. r < length (heap s)" by blast
  have "foldl (matchStep tok ?B ?S uuid now) (heap s, []) [0..<?n] =
     (mark (set (take ?n ?B) \<union> set (take ?n ?S)) (heap s), map (mkMatch tok ?B ?S uuid now) [0..<?n])"
    using valid by (intro foldl_matchStep) (simp_all add: len)
  moreover have "findMatches rt s tok orders rb rs uuid now =
     (s\<lparr>heap := fst (foldl (matchStep tok ?B ?S uuid now) (heap s, []) [0..<min (length ?B) (length ?S)])\<rparr>,
      snd (foldl (matchStep tok ?B ?S uuid now) (heap s, []) [0..<min (length ?B) (length ?S)]))"
    by (simp only: findMatches_def Let_def pendingBuys_def pendingSells_def partition_filter1
          partition_filter2 comp_def)
  ultimately show ?thesis
    by (simp only: len fst_conv snd_conv)
qed





lemma map_nth_upt_take: "n \<le> length xs \<Longrightarrow> map ((!) xs) [0..<n] = take n xs"
  by (simp add: list_eq_iff_nth_eq)


subsection \<open>Pairing conservation (C5)\<close>


subsection \<open>The example engines, evaluated\<close>


lemma side_AA: "decryptSide node (JStr ''AA=='') = ''buy''"
  by (simp add: decryptSide_def node_def unbase64_def)

lemma side_AQ: "decryptSide node (JStr ''AQ=='') = ''sell''"
  by (simp add: decryptSide_def node_def unbase64_def)

lemma side_5: "decryptSide node (JNum 5) = ''buy''"
  by (simp add: decryptSide_def node_def)

lemma unit_draws_const: "0 \<le> c \<Longrightarrow> c < 1 \<Longrightarrow> unit_draws (\<lambda>k. c)"
  by (simp add: unit_draws_def)






lemma findMatches_heap:
  assumes "unit_draws rb" "unit_draws rs" "\<forall>r\<in>set orders. r < length (heap s)"
  shows "heap (fst (findMatches rt s tok orders rb rs uuid now)) =
     mark (set (take (min (length (pendingBuys rt s orders)) (length (pendingSells rt s orders)))
                     (shuffleArray rb (pendingBuys rt s orders))) \<union>
           set (take (min (length (pendingBuys rt s orders)) (length (pendingSells rt s orders)))
                     (shuffleArray rs (pendingSells rt s orders)))) (heap s)"
  by (simp add: findMatches_eq[OF assms])

lemma findMatches_buyOrders:
  assumes "unit_draws rb" "unit_draws rs" "\<forall>r\<in>set orders. r < length (heap s)"
  shows "map buyOrder (snd (findMatches rt s tok orders rb rs uuid now)) =
     take (min (length (pendingBuys rt s orders)) (length (pendingSells rt s orders)))
          (shuffleArray rb (pendingBuys rt s orders))"
proof -
  let ?n = "min (length (pendingBuys rt s orders)) (length (pendingSells rt s orders))"
  let ?shb = "shuffleArray rb (pendingBuys rt s orders)"
  have "map buyOrder (snd (findMatches rt s tok orders rb rs uuid now)) = map ((!) ?shb) [0..<?n]"
    by (simp add: findMatches_eq[OF assms] mkMatch_def comp_def)
  also have "\<dots> = take ?n ?shb"
    using assms(1) by (intro map_nth_upt_take) (simp add: length_shuffleArray)
  finally show ?thesis .
qed


lemma engine_NB_eq:
  "engine_NB = (newEngine False 5000)\<lparr>heap :=
     [\<lparr>order_id = ''id-N'', encryptedPayload = JStr ''e30='', commitment = JStr ''cN'',
       nullifier = JStr ''nN'', tokenAddress = JStr ''T'', timestamp = 1, status = ''pending'',
       encryptedSide = JNum 5\<rparr>,
      \<lparr>order_id = ''id-B'', encryptedPayload = JStr ''e30='', commitment = JStr ''cB'',
       nullifier = JStr ''nB'', tokenAddress = JStr ''T'', timestamp = 2, status = ''pending'',
       encryptedSide = JStr ''AQ==''\<rparr>],
     orderBooks := [(JStr ''T'', [0, 1])], totalOrders := 2\<rparr>"
  by (simp add: engine_NB_def submitOrder_def newEngine_def order_N_def order_B_def Let_def)

lemma pb_NB: "pendingBuys node engine_NB [0, 1] = [0]"
  by (simp add: pendingBuys_def engine_NB_eq isPending_def isBuy_def side_5 side_AQ)

lemma ps_NB: "pendingSells node engine_NB [0, 1] = [1]"
  by (simp add: pendingSells_def engine_NB_eq isPending_def isBuy_def side_5 side_AQ)

lemma sh0: "shuffleArray random [x] = [x]"
  by (simp add: shuffleArray_def)

lemma fm_NB:
  "findMatches node engine_NB (JStr ''T'') [0, 1] (\<lambda>k. 0) (\<lambda>k. 0) (\<lambda>i. ''match-1'') (\<lambda>i. 4) =
     (engine_NB\<lparr>heap := mark {0, 1} (heap engine_NB)\<rparr>,
      [\<lparr>match_id = ''match-1'', buyOrder = 0, sellOrder = 1, m_tokenAddress = JStr ''T'', m_timestamp = 4\<rparr>])"
proof -
  have v: "\<forall>r\<in>set [0, 1]. r < length (heap engine_NB)"
    by (simp add: engine_NB_eq)
  show ?thesis
    using findMatches_eq[OF unit_draws_const[of 0] unit_draws_const[of 0] v, of node "JStr ''T''" "\<lambda>i. ''match-1''" "\<lambda>i. 4"]
    unfolding pb_NB ps_NB sh0 by (simp add: mkMatch_def insert_commute)
qed

subsection \<open>Orders whose side cannot be resolved (C2)\<close>

text \<open>
  C2, as stated, fails. In \<open>engine_NB\<close> the side of the first order cannot be resolved
  (\<open>Buffer.from\<close> throws), the order is pending, and the pass does not skip it: it is the
  buy order of the match formed and its status becomes \<open>'matched'\<close>.
\<close>

theorem unresolved_side_matched_counterexample:
  "\<not> (Buffer_from node (encryptedSide (heap engine_NB ! 0)) = Inl TypeError \<and> isPending (heap engine_NB) 0 \<longrightarrow>
        0 \<notin> buyOrder ` set (snd (findMatches node engine_NB (JStr ''T'') [0, 1] draw0 draw0 uuid1 now4)) \<and>
        0 \<notin> sellOrder ` set (snd (findMatches node engine_NB (JStr ''T'') [0, 1] draw0 draw0 uuid1 now4)) \<and>
        status (heap (fst (findMatches node engine_NB (JStr ''T'') [0, 1] draw0 draw0 uuid1 now4)) ! 0) = ''pending'')"
proof -
  have c: "draw0 = (\<lambda>k. 0)" "uuid1 = (\<lambda>i. ''match-1'')" "now4 = (\<lambda>i. 4)"
    by (simp_all add: fun_eq_iff draw0_def uuid1_def now4_def)
  show ?thesis
    unfolding c fm_NB by (simp add: engine_NB_eq node_def isPending_def)
qed

text \<open>
  C2, amended. An order whose side resolution fails is not skipped: the \<open>catch\<close> of
  \<open>decryptSide\<close> returns \<open>'buy'\<close>, so in every matching pass such a pending order is among
  the buy orders of the pass (every pending order of the book is put on one of the two
  sides), and it is paired like any other buy: when there are no more buys than sells it
  is in a match and is marked \<open>'matched'\<close>.
\<close>

theorem unresolved_side_is_buy:
  "(Buffer_from rt v = Inl e \<longrightarrow> decryptSide rt v = ''buy'')
   \<and> (r \<in> set orders \<and> isPending (heap s) r \<longrightarrow>
        r \<in> set (pendingBuys rt s orders) \<or> r \<in> set (pendingSells rt s orders))
   \<and> (r \<in> set orders \<and> isPending (heap s) r \<and> Buffer_from rt (encryptedSide (heap s ! r)) = Inl e \<longrightarrow>
        r \<in> set (pendingBuys rt s orders))
   \<and> (unit_draws rb \<and> unit_draws rs \<and> (\<forall>x\<in>set orders. x < length (heap s)) \<and>
      r \<in> set orders \<and> isPending (heap s) r \<and> Buffer_from rt (encryptedSide (heap s ! r)) = Inl e \<and>
      length (pendingBuys rt s orders) \<le> length (pendingSells rt s orders) \<longrightarrow>
        r \<in> buyOrder ` set (snd (findMatches rt s tok orders rb rs uuid now)) \<and>
        status (heap (fst (findMatches rt s tok orders rb rs uuid now)) ! r) = ''matched'')"
  (is "?tA \<and> ?tB \<and> ?tC \<and> ?tD")
proof -
  have A: ?tA by (simp add: decryptSide_def)
  have B: ?tB by (auto simp: pendingBuys_def pendingSells_def)
  have C: ?tC by (simp add: pendingBuys_def isBuy_def decryptSide_def)
  have D: ?tD
  proof
    assume h: "unit_draws rb \<and> unit_draws rs \<and> (\<forall>x\<in>set orders. x < length (heap s)) \<and>
      r \<in> set orders \<and> isPending (heap s) r \<and> Buffer_from rt (encryptedSide (heap s ! r)) = Inl e \<and>
      length (pendingBuys rt s orders) \<le> length (pendingSells rt s orders)"
    let ?n = "min (length (pendingBuys rt s orders)) (length (pendingSells rt s orders))"
    let ?shb = "shuffleArray rb (pendingBuys rt s orders)"
    let ?shs = "shuffleArray rs (pendingSells rt s orders)"
    from h have ud: "unit_draws rb" "unit_draws rs" and v: "\<forall>x\<in>set orders. x < length (heap s)"
      by simp_all
    from h C have "r \<in> set (pendingBuys rt s orders)" by blast
    then have "r \<in> set ?shb" using ud by (simp add: set_shuffleArray)
    moreover have "take ?n ?shb = ?shb"
      using h ud by (simp add: length_shuffleArray min_def)
    ultimately have mem: "r \<in> set (take ?n ?shb)" by simp
    then have "r \<in> set (map buyOrder (snd (findMatches rt s tok orders rb rs uuid now)))"
      by (simp only: findMatches_buyOrders[OF ud v])
    then have 1: "r \<in> buyOrder ` set (snd (findMatches rt s tok orders rb rs uuid now))"
      by simp
    from h have "r < length (heap s)" by blast
    with mem have 2: "status (heap (fst (findMatches rt s tok orders rb rs uuid now)) ! r) = ''matched''"
      by (simp add: findMatches_heap[OF ud v] nth_mark)
    from 1 2 show "r \<in> buyOrder ` set (snd (findMatches rt s tok orders rb rs uuid now)) \<and>
        status (heap (fst (findMatches rt s tok orders rb rs uuid now)) ! r) = ''matched''" ..
  qed
  from A B C D show ?thesis by (intro conjI)
qed

text \<open>On \<open>engine_NB\<close>: the order with the unresolvable side is matched with the sell order.\<close>

theorem unresolved_side_is_buy_witness:
  "Buffer_from node (encryptedSide (heap engine_NB ! 0)) = Inl TypeError \<and>
   isPending (heap engine_NB) 0 \<and> unit_draws (\<lambda>k. 0) \<and>
   length (pendingBuys node engine_NB [0, 1]) \<le> length (pendingSells node engine_NB [0, 1]) \<and>
   decryptSide node (JNum 5) = ''buy'' \<and>
   0 \<in> set (pendingBuys node engine_NB [0, 1]) \<and>
   0 \<in> buyOrder ` set (snd (findMatches node engine_NB (JStr ''T'') [0, 1] (\<lambda>k. 0) (\<lambda>k. 0) (\<lambda>i. ''match-1'') (\<lambda>i. 4))) \<and>
   status (heap (fst (findMatches node engine_NB (JStr ''T'') [0, 1] (\<lambda>k. 0) (\<lambda>k. 0) (\<lambda>i. ''match-1'') (\<lambda>i. 4))) ! 0) = ''matched''"
proof -
  have ud: "unit_draws (\<lambda>k. 0)" by (rule unit_draws_const) simp_all
  have f: "Buffer_from node (encryptedSide (heap engine_NB ! 0)) = Inl TypeError"
    by (simp add: engine_NB_eq node_def)
  have p: "isPending (heap engine_NB) 0" by (simp add: engine_NB_eq isPending_def)
  have v: "\<forall>x\<in>set [0, 1]. x < length (heap engine_NB)" by (simp add: engine_NB_eq)
  have le: "length (pendingBuys node engine_NB [0, 1]) \<le> length (pendingSells node engine_NB [0, 1])"
    unfolding pb_NB ps_NB by simp
  have m: "0 \<in> set [0, 1 :: nat]" by simp
  from unresolved_side_is_buy[of node "JNum 5" TypeError 0 "[0, 1]" engine_NB "\<lambda>k. 0" "\<lambda>k. 0"
          "JStr ''T''" "\<lambda>i. ''match-1''" "\<lambda>i. 4"] ud f p v le m
  show ?thesis by (simp add: node_def)
qed






subsection \<open>The liquidity gate (C3)\<close>




subsection \<open>Facts about settlement\<close>

lemma recordExecution_result:
  "snd (recordExecution s m eid p a now) =
     \<lparr>execution_id = eid, matchId = match_id m, e_tokenAddress = m_tokenAddress m, price = p,
      e_amount = a, e_timestamp = now 0, buyCommitment = commitment (heap s ! buyOrder m),
      sellCommitment = commitment (heap s ! sellOrder m), executedOnChain = True,
      swapStatus = ''completed''\<rparr>"
  by (simp add: recordExecution_def Let_def)

lemma removeMatchedOrders_fields:
  "heap (removeMatchedOrders s m) = heap s"
  "pendingMatches (removeMatchedOrders s m) = pendingMatches s"
  "totalMatches (removeMatchedOrders s m) = totalMatches s"
  "totalExecuted (removeMatchedOrders s m) = totalExecuted s"
  "totalVolume (removeMatchedOrders s m) = totalVolume s"
  "totalOrders (removeMatchedOrders s m) = totalOrders s"
  by (simp_all add: removeMatchedOrders_def split: option.splits)

lemma removeMatchedOrders_book:
  "map_of (orderBooks (removeMatchedOrders s m)) (m_tokenAddress m) =
     map_option (filter (\<lambda>r. order_id (heap s ! r) \<noteq> order_id (heap s ! buyOrder m) \<and>
                              order_id (heap s ! r) \<noteq> order_id (heap s ! sellOrder m)))
                (map_of (orderBooks s) (m_tokenAddress m))"
  by (simp add: removeMatchedOrders_def update_conv' split: option.splits)

lemma recordExecution_state:
  "heap (fst (recordExecution s m eid p a now)) = heap s"
  "totalMatches (fst (recordExecution s m eid p a now)) = totalMatches s + 1"
  "totalExecuted (fst (recordExecution s m eid p a now)) = totalExecuted s + 1"
  "totalVolume (fst (recordExecution s m eid p a now)) = num_add (totalVolume s) (num_mul a p)"
  "totalOrders (fst (recordExecution s m eid p a now)) = totalOrders s"
  "orderBooks (fst (recordExecution s m eid p a now)) = orderBooks (removeMatchedOrders s m)"
  by (simp_all add: recordExecution_def Let_def removeMatchedOrders_def split: option.splits)

lemma recordExecution_pendingMatches:
  "pendingMatches (fst (recordExecution s m eid p a now)) =
     (pendingMatches s)
       (nullifier (heap s ! buyOrder m) \<mapsto>
          execution.extend (snd (recordExecution s m eid p a now)) \<lparr>side = ''buy'', fillAmount = a\<rparr>,
        nullifier (heap s ! sellOrder m) \<mapsto>
          execution.extend (snd (recordExecution s m eid p a now)) \<lparr>side = ''sell'', fillAmount = a\<rparr>)"
  by (simp add: recordExecution_def Let_def removeMatchedOrders_def split: option.splits)

lemma executeMatch_no_service:
  "\<not> anoncoinService s \<Longrightarrow>
   executeMatch rt s m eid random executeSwap now =
     (fst (recordExecution s m eid (executionPriceOf rt s m random) (matchedAmountOf rt s m) now),
      Inr (snd (recordExecution s m eid (executionPriceOf rt s m random) (matchedAmountOf rt s m) now)), [])"
  by (simp add: executeMatch_def Let_def case_prod_beta)

lemma executeMatch_Inr:
  "executeMatch rt s m eid random executeSwap now = (s', Inr ex, calls) \<Longrightarrow>
   s' = fst (recordExecution s m eid (executionPriceOf rt s m random) (matchedAmountOf rt s m) now) \<and>
   ex = snd (recordExecution s m eid (executionPriceOf rt s m random) (matchedAmountOf rt s m) now)"
  by (auto simp: executeMatch_def Let_def case_prod_beta split: if_splits sum.splits)

lemma nth_set_status:
  "set_status h r st ! k = (if k = r \<and> r < length h then (h ! r)\<lparr>status := st\<rparr> else h ! k)"
proof (cases "r < length h")
  case True
  then show ?thesis by (simp add: set_status_def nth_list_update)
next
  case False
  then have "length h \<le> r" by simp
  then show ?thesis using False by (simp add: set_status_def list_update_beyond)
qed

lemma length_set_status [simp]: "length (set_status h r st) = length h"
  by (simp add: set_status_def)

lemma status_set_pending:
  "b < length h \<Longrightarrow> sl < length h \<Longrightarrow>
   status (set_status (set_status h b st) sl st ! b) = st \<and>
   status (set_status (set_status h b st) sl st ! sl) = st"
  by (simp add: nth_set_status)

lemma executeMatch_swap_fails:
  "anoncoinService s \<Longrightarrow> executeSwap (swapRequest rt s m random) = Inl err \<Longrightarrow>
   executeMatch rt s m eid random executeSwap now =
     (s\<lparr>heap := set_status (set_status (heap s) (buyOrder m) ''pending'') (sellOrder m) ''pending''\<rparr>,
      Inl err, [swapRequest rt s m random])"
  by (simp add: executeMatch_def Let_def)

lemma sel0: "randomBuy draws0 k = (\<lambda>i. 0)" "randomSell draws0 k = (\<lambda>i. 0)"
    "matchUuid draws0 k = (\<lambda>i. ''match-1'')" "matchNow draws0 k = (\<lambda>i. 4)" "randomDelay draws0 k = (\<lambda>i. 0)"
  by (simp_all add: draws0_def)

text \<open>A cycle over one book of two pending orders, a buy at x and a sell at y.\<close>

lemma cycleToken_pair:
  assumes "x < length (heap s)" "y < length (heap s)"
    and "isPending (heap s) x" "isPending (heap s) y"
    and "isBuy node (heap s) x" "\<not> isBuy node (heap s) y"
    and "minBatchSize s = 2" "executionDelayMin s = 1000"
  shows "cycleToken node draws0 k s (JStr ''T'') [x, y] =
     (s\<lparr>heap := mark {x, y} (heap s)\<rparr>, [match1 x y], [(1000, match1 x y)])"
proof -
  have v: "\<forall>r\<in>set [x, y]. r < length (heap s)" using assms by simp
  have pb: "pendingBuys node s [x, y] = [x]" using assms by (simp add: pendingBuys_def)
  have ps: "pendingSells node s [x, y] = [y]" using assms by (simp add: pendingSells_def)
  have fm: "findMatches node s (JStr ''T'') [x, y] (\<lambda>i. 0) (\<lambda>i. 0) (\<lambda>i. ''match-1'') (\<lambda>i. 4) =
      (s\<lparr>heap := mark {x, y} (heap s)\<rparr>, [match1 x y])"
    using findMatches_eq[OF unit_draws_const[of 0] unit_draws_const[of 0] v, of node "JStr ''T''" "\<lambda>i. ''match-1''" "\<lambda>i. 4"]
    unfolding pb ps sh0 by (simp add: mkMatch_def match1_def insert_commute)
  show ?thesis
    unfolding cycleToken_def sel0 fm using assms(7,8)
    by (simp add: executeMatches_def getRandomDelay_def)
qed

lemma world_AB_eq:
  "world_AB b = \<lparr>eng = engine_matched b, timers = [(1000, match1 0 1)]\<rparr>"
proof -
  let ?e2 = "(newEngine b 5000)\<lparr>heap := [ordA ''id-A'' ''pending'' 1, ordB ''id-B'' ''pending'' 2],
                      orderBooks := [(JStr ''T'', [0, 1])], totalOrders := 2\<rparr>"
  have s2: "run node (newWorld b 5000) [Submit (Some order_A) ''id-A'' 1 1, Submit (Some order_B) ''id-B'' 2 2] =
      \<lparr>eng = ?e2, timers = []\<rparr>"
    by (simp add: run_def newWorld_def submitOrder_def newEngine_def order_A_def order_B_def Let_def ordA_def ordB_def)
  have c: "cycleToken node draws0 0 ?e2 (JStr ''T'') [0, 1] =
      (?e2\<lparr>heap := mark {0, 1} (heap ?e2)\<rparr>, [match1 0 1], [(1000, match1 0 1)])"
    by (rule cycleToken_pair)
       (simp_all add: isPending_def isBuy_def ordA_def ordB_def side_AA side_AQ newEngine_def)
  have m: "mark {0, 1} (heap ?e2) = [ordA ''id-A'' ''matched'' 1, ordB ''id-B'' ''matched'' 2]"
    unfolding mark_def by (simp add: ordA_def ordB_def)
  have "run node (newWorld b 5000)
       ([Submit (Some order_A) ''id-A'' 1 1, Submit (Some order_B) ''id-B'' 2 2] @ [Cycle draws0]) =
      apply_event node \<lparr>eng = ?e2, timers = []\<rparr> (Cycle draws0)"
    unfolding run_def foldl_append s2[unfolded run_def] by simp
  also have "\<dots> = \<lparr>eng = ?e2\<lparr>heap := mark {0, 1} (heap ?e2)\<rparr>, timers = [(1000, match1 0 1)]\<rparr>"
    using c by (simp add: runMatchingCycle_def)
  finally show ?thesis
    unfolding world_AB_def m engine_matched_def by simp
qed

lemma details_e30: "encryptedPayload ord = JStr ''e30='' \<Longrightarrow> decryptOrderForExecution node ord = defaultDetails"
  by (simp add: decryptOrderForExecution_def node_def unbase64_def example_JSON_parse_def defaultDetails_def)

lemma price_default_quarter: "calculateExecutionPrice defaultDetails defaultDetails (1/4) = NaN"
  by (simp add: calculateExecutionPrice_def midpoint_def defaultDetails_def)

lemma price_e30:
  assumes "encryptedPayload (heap s ! buyOrder m) = JStr ''e30=''"
    and "encryptedPayload (heap s ! sellOrder m) = JStr ''e30=''"
  shows "executionPriceOf node s m (1/4) = NaN" and "matchedAmountOf node s m = Fin 100"
proof -
  show "executionPriceOf node s m (1/4) = NaN"
    using assms by (simp add: executionPriceOf_def details_e30 price_default_quarter)
  show "matchedAmountOf node s m = Fin 100"
    using assms by (simp add: matchedAmountOf_def details_e30 defaultDetails_def)
qed

lemma executeMatch_swap_ok:
  "anoncoinService s \<Longrightarrow> executeSwap (swapRequest rt s m random) = Inr tx \<Longrightarrow>
   executeMatch rt s m eid random executeSwap now =
     (fst (recordExecution s m eid (executionPriceOf rt s m random) (matchedAmountOf rt s m) now),
      Inr (snd (recordExecution s m eid (executionPriceOf rt s m random) (matchedAmountOf rt s m) now)),
      [swapRequest rt s m random])"
  by (simp add: executeMatch_def Let_def case_prod_beta)

lemma record_AB:
  "recordExecution (engine_matched b) (match1 0 1) ''exec-1'' NaN (Fin 100) now9 =
     (engine_settled b, execution1 ''exec-1'' NaN)"
  by (simp add: recordExecution_def engine_matched_def engine_settled_def Let_def match1_def ordA_def
        ordB_def now9_def execution1_def removeMatchedOrders_def newEngine_def)

lemma payload_matched:
  "encryptedPayload (heap (engine_matched b) ! buyOrder (match1 0 1)) = JStr ''e30=''"
  "encryptedPayload (heap (engine_matched b) ! sellOrder (match1 0 1)) = JStr ''e30=''"
  by (simp_all add: engine_matched_def match1_def ordA_def ordB_def)

lemma executeMatch_AB_ok:
  "executeMatch node (engine_matched True) (match1 0 1) ''exec-1'' (1/4) swap_ok now9 =
     (engine_settled True, Inr (execution1 ''exec-1'' NaN),
      [swapRequest node (engine_matched True) (match1 0 1) (1/4)])"
proof -
  have sv: "anoncoinService (engine_matched True)" by (simp add: engine_matched_def newEngine_def)
  have ok: "swap_ok (swapRequest node (engine_matched True) (match1 0 1) (1/4)) = Inr ''tx-1''"
    by (simp add: swap_ok_def)
  show ?thesis
    unfolding executeMatch_swap_ok[where executeSwap = swap_ok and tx = "''tx-1''", OF sv ok] price_e30[OF payload_matched] record_AB fst_conv snd_conv ..
qed


lemma world_reuse_eq: "world_reuse = \<lparr>eng = engine_reuse, timers = [(1000, match1 2 3)]\<rparr>"
proof -
  let ?e6 = "(engine_settled True)\<lparr>heap := [ordA ''id-A'' ''matched'' 1, ordB ''id-B'' ''matched'' 2,
                                     ordA ''id-A2'' ''pending'' 5, ordB ''id-B2'' ''pending'' 6],
        orderBooks := [(JStr ''T'', [2, 3])], totalOrders := 4\<rparr>"
  have f: "apply_event node (world_AB True) (Fire 0 ''exec-1'' (1/4) swap_ok now9) =
      \<lparr>eng = engine_settled True, timers = []\<rparr>"
    by (simp add: world_AB_eq timerCallback_def executeMatch_AB_ok[unfolded One_nat_def] splice1_def)
  have s: "run node \<lparr>eng = engine_settled True, timers = []\<rparr>
        [Submit (Some order_A) ''id-A2'' 5 5, Submit (Some order_B) ''id-B2'' 6 6] = \<lparr>eng = ?e6, timers = []\<rparr>"
    by (simp add: run_def submitOrder_def engine_settled_def engine_matched_def newEngine_def
          order_A_def order_B_def Let_def ordA_def ordB_def)
  have c: "cycleToken node draws0 0 ?e6 (JStr ''T'') [2, 3] =
      (?e6\<lparr>heap := mark {2, 3} (heap ?e6)\<rparr>, [match1 2 3], [(1000, match1 2 3)])"
    by (rule cycleToken_pair)
       (simp_all add: isPending_def isBuy_def ordA_def ordB_def side_AA side_AQ newEngine_def
          engine_settled_def engine_matched_def)
  have m: "mark {2, 3} (heap ?e6) = [ordA ''id-A'' ''matched'' 1, ordB ''id-B'' ''matched'' 2,
                                     ordA ''id-A2'' ''matched'' 5, ordB ''id-B2'' ''matched'' 6]"
    unfolding mark_def by (simp add: ordA_def ordB_def)
  have "world_reuse = apply_event node (run node (apply_event node (world_AB True) (Fire 0 ''exec-1'' (1/4) swap_ok now9))
          [Submit (Some order_A) ''id-A2'' 5 5, Submit (Some order_B) ''id-B2'' 6 6]) (Cycle draws0)"
    by (simp add: world_reuse_def run_def)
  also have "\<dots> = apply_event node \<lparr>eng = ?e6, timers = []\<rparr> (Cycle draws0)"
    unfolding f s ..
  also have "\<dots> = \<lparr>eng = ?e6\<lparr>heap := mark {2, 3} (heap ?e6)\<rparr>, timers = [(1000, match1 2 3)]\<rparr>"
    using c by (simp add: runMatchingCycle_def)
  finally show ?thesis
    unfolding m engine_reuse_def by (simp add: engine_settled_def engine_matched_def newEngine_def)
qed

lemma world_same_eq: "world_same = \<lparr>eng = engine_same, timers = [(1000, match1 0 1)]\<rparr>"
proof -
  let ?e2 = "(newEngine False 5000)\<lparr>heap := [ordA ''id-A'' ''pending'' 1,
                                       (ordB ''id-B'' ''pending'' 2)\<lparr>nullifier := JStr ''nA''\<rparr>],
                      orderBooks := [(JStr ''T'', [0, 1])], totalOrders := 2\<rparr>"
  have s2: "run node (newWorld False 5000) [Submit (Some order_A) ''id-A'' 1 1, Submit (Some order_A') ''id-B'' 2 2] =
      \<lparr>eng = ?e2, timers = []\<rparr>"
    by (simp add: run_def newWorld_def submitOrder_def newEngine_def order_A_def order_A'_def Let_def ordA_def ordB_def)
  have c: "cycleToken node draws0 0 ?e2 (JStr ''T'') [0, 1] =
      (?e2\<lparr>heap := mark {0, 1} (heap ?e2)\<rparr>, [match1 0 1], [(1000, match1 0 1)])"
    by (rule cycleToken_pair)
       (simp_all add: isPending_def isBuy_def ordA_def ordB_def side_AA side_AQ newEngine_def)
  have m: "mark {0, 1} (heap ?e2) = [ordA ''id-A'' ''matched'' 1, (ordB ''id-B'' ''matched'' 2)\<lparr>nullifier := JStr ''nA''\<rparr>]"
    unfolding mark_def by (simp add: ordA_def ordB_def)
  have "run node (newWorld False 5000)
       ([Submit (Some order_A) ''id-A'' 1 1, Submit (Some order_A') ''id-B'' 2 2] @ [Cycle draws0]) =
      apply_event node \<lparr>eng = ?e2, timers = []\<rparr> (Cycle draws0)"
    unfolding run_def foldl_append s2[unfolded run_def] by simp
  also have "\<dots> = \<lparr>eng = ?e2\<lparr>heap := mark {0, 1} (heap ?e2)\<rparr>, timers = [(1000, match1 0 1)]\<rparr>"
    using c by (simp add: runMatchingCycle_def)
  finally show ?thesis
    unfolding world_same_def m engine_same_def by simp
qed

subsection \<open>Settlement without a settlement service (C9)\<close>

text \<open>
  C9. When the engine was constructed without \<open>anoncoinService\<close>, \<open>executeMatch\<close> returns
  an execution record for every match, whatever the service would do, and sends no
  request to it. The record has \<open>executedOnChain\<close> true and \<open>swapStatus\<close> \<open>'completed'\<close>;
  the book of the match's token loses the orders with the ids of the two matched orders,
  so it holds neither of them afterwards; \<open>totalMatches\<close> and \<open>totalExecuted\<close> grow by one
  and \<open>totalVolume\<close> by amount times price.
\<close>

theorem executeMatch_without_service:
  assumes "\<not> anoncoinService s"
  shows "\<exists>s' ex.
      executeMatch rt s m executionId random executeSwap now = (s', Inr ex, []) \<and>
      matchId ex = match_id m \<and> executedOnChain ex \<and> swapStatus ex = ''completed'' \<and>
      e_amount ex = matchedAmountOf rt s m \<and> price ex = executionPriceOf rt s m random \<and>
      map_of (orderBooks s') (m_tokenAddress m) =
        map_option (filter (\<lambda>r. order_id (heap s ! r) \<noteq> order_id (heap s ! buyOrder m) \<and>
                                 order_id (heap s ! r) \<noteq> order_id (heap s ! sellOrder m)))
                   (map_of (orderBooks s) (m_tokenAddress m)) \<and>
      (\<forall>orders. map_of (orderBooks s') (m_tokenAddress m) = Some orders \<longrightarrow>
                buyOrder m \<notin> set orders \<and> sellOrder m \<notin> set orders) \<and>
      totalExecuted s' = totalExecuted s + 1 \<and> totalMatches s' = totalMatches s + 1 \<and>
      totalVolume s' = num_add (totalVolume s) (num_mul (e_amount ex) (price ex))"
proof -
  let ?r = "recordExecution s m executionId (executionPriceOf rt s m random) (matchedAmountOf rt s m) now"
  have book: "map_of (orderBooks (fst ?r)) (m_tokenAddress m) =
        map_option (filter (\<lambda>r. order_id (heap s ! r) \<noteq> order_id (heap s ! buyOrder m) \<and>
                                 order_id (heap s ! r) \<noteq> order_id (heap s ! sellOrder m)))
                   (map_of (orderBooks s) (m_tokenAddress m))"
    by (simp add: recordExecution_state removeMatchedOrders_book)
  have gone: "\<forall>orders. map_of (orderBooks (fst ?r)) (m_tokenAddress m) = Some orders \<longrightarrow>
                buyOrder m \<notin> set orders \<and> sellOrder m \<notin> set orders"
    unfolding book by auto
  show ?thesis
    apply (rule exI[of _ "fst ?r"])
    apply (rule exI[of _ "snd ?r"])
    apply (intro conjI)
              apply (rule executeMatch_no_service[OF assms])
             apply (simp add: recordExecution_result)
            apply (simp add: recordExecution_result)
           apply (simp add: recordExecution_result)
          apply (simp add: recordExecution_result)
         apply (simp add: recordExecution_result)
        apply (rule book)
       apply (rule gone)
      apply (simp add: recordExecution_state)
     apply (simp add: recordExecution_state)
    apply (simp add: recordExecution_state recordExecution_result)
    done
qed

text \<open>
  On the engine in which A and B are matched, without service: the settlement returns the
  record, empties the book and counts one execution.
\<close>

theorem executeMatch_without_service_witness:
  "\<not> anoncoinService (engine_matched False) \<and>
   executeMatch node (engine_matched False) (match1 0 1) ''exec-1'' (1/4) swap_rejects now9 =
     (engine_settled False, Inr (execution1 ''exec-1'' NaN), []) \<and>
   map_of (orderBooks (engine_settled False)) (JStr ''T'') = Some [] \<and>
   totalExecuted (engine_settled False) = totalExecuted (engine_matched False) + 1"
proof -
  have ns: "\<not> anoncoinService (engine_matched False)"
    by (simp add: engine_matched_def newEngine_def)
  have ev: "executeMatch node (engine_matched False) (match1 0 1) ''exec-1'' (1/4) swap_rejects now9 =
     (engine_settled False, Inr (execution1 ''exec-1'' NaN), [])"
    unfolding executeMatch_no_service[OF ns] price_e30[OF payload_matched] record_AB fst_conv snd_conv ..
  from executeMatch_without_service[OF ns, of node "match1 0 1" "''exec-1''" "1/4" swap_rejects now9]
  obtain s' ex where
    "executeMatch node (engine_matched False) (match1 0 1) ''exec-1'' (1/4) swap_rejects now9 = (s', Inr ex, [])"
    "totalExecuted s' = totalExecuted (engine_matched False) + 1"
    by blast
  with ev have "totalExecuted (engine_settled False) = totalExecuted (engine_matched False) + 1"
    by simp
  moreover have "map_of (orderBooks (engine_settled False)) (JStr ''T'') = Some []"
    by (simp add: engine_settled_def)
  ultimately show ?thesis using ns ev by simp
qed

subsection \<open>The status records after a settlement (C10)\<close>

text \<open>
  C10, as stated, fails when the two orders of a match carry the same nullifier, which
  the engine admits: \<open>pendingMatches\<close> has one entry per nullifier and the sell record is
  written last. In \<open>world_same\<close> the settlement succeeds and the lookup of the buy order's
  nullifier does not return a record of side \<open>'buy'\<close>.
\<close>

theorem same_nullifier_status_counterexample:
  "fst (snd (executeMatch node (eng world_same) (snd (timers world_same ! 0)) ''exec-1'' (1/4) swap_ok now9))
      = Inr (execution1 ''exec-1'' NaN) \<and>
   \<not> (map_option side
         (checkMatchStatus
            (fst (executeMatch node (eng world_same) (snd (timers world_same ! 0)) ''exec-1'' (1/4) swap_ok now9))
            (nullifier (heap (eng world_same) ! buyOrder (snd (timers world_same ! 0)))))
       = Some ''buy'')"
proof -
  have ns: "\<not> anoncoinService engine_same" by (simp add: engine_same_def newEngine_def)
  have p: "encryptedPayload (heap engine_same ! buyOrder (match1 0 1)) = JStr ''e30=''"
          "encryptedPayload (heap engine_same ! sellOrder (match1 0 1)) = JStr ''e30=''"
    by (simp_all add: engine_same_def match1_def ordA_def ordB_def)
  have n: "nullifier (heap engine_same ! buyOrder (match1 0 1)) = JStr ''nA''"
          "nullifier (heap engine_same ! sellOrder (match1 0 1)) = JStr ''nA''"
    by (simp_all add: engine_same_def match1_def ordA_def ordB_def)
  have r: "snd (recordExecution engine_same (match1 0 1) ''exec-1'' NaN (Fin 100) now9) = execution1 ''exec-1'' NaN"
    by (simp add: recordExecution_result execution1_def match1_def now9_def engine_same_def ordA_def ordB_def)
  have w: "eng world_same = engine_same" "snd (timers world_same ! 0) = match1 0 1"
    by (simp_all add: world_same_eq)
  show ?thesis
    unfolding w executeMatch_no_service[OF ns] price_e30[OF p] fst_conv snd_conv checkMatchStatus_def
      recordExecution_pendingMatches n r
    by (simp add: execution.defs)
qed

text \<open>
  C10, amended. After every successful settlement of a match, \<open>checkMatchStatus\<close> of the
  sell order's nullifier returns a record of side \<open>'sell'\<close>, and \<open>checkMatchStatus\<close> of the
  buy order's nullifier returns a record of side \<open>'buy'\<close> provided the two nullifiers
  differ (when they are equal it returns the sell record); both records carry
  \<open>fillAmount\<close> equal to the matched amount.
\<close>

theorem status_after_settlement:
  assumes "executeMatch rt s m executionId random executeSwap now = (s', Inr ex, calls)"
  shows "(\<exists>rec. checkMatchStatus s' (nullifier (heap s ! sellOrder m)) = Some rec \<and>
               side rec = ''sell'' \<and> fillAmount rec = matchedAmountOf rt s m \<and>
               e_amount rec = matchedAmountOf rt s m \<and> matchId rec = match_id m)
       \<and> (nullifier (heap s ! buyOrder m) \<noteq> nullifier (heap s ! sellOrder m) \<longrightarrow>
            (\<exists>rec. checkMatchStatus s' (nullifier (heap s ! buyOrder m)) = Some rec \<and>
               side rec = ''buy'' \<and> fillAmount rec = matchedAmountOf rt s m \<and>
               e_amount rec = matchedAmountOf rt s m \<and> matchId rec = match_id m))
       \<and> (nullifier (heap s ! buyOrder m) = nullifier (heap s ! sellOrder m) \<longrightarrow>
            map_option side (checkMatchStatus s' (nullifier (heap s ! buyOrder m))) = Some ''sell'')
       \<and> heap s' = heap s \<and> e_amount ex = matchedAmountOf rt s m"
proof -
  from executeMatch_Inr[OF assms] have
    s': "s' = fst (recordExecution s m executionId (executionPriceOf rt s m random) (matchedAmountOf rt s m) now)" and
    ex: "ex = snd (recordExecution s m executionId (executionPriceOf rt s m random) (matchedAmountOf rt s m) now)"
    by simp_all
  show ?thesis
    unfolding s' ex checkMatchStatus_def recordExecution_pendingMatches
    by (simp add: recordExecution_result recordExecution_state execution.defs)
qed

text \<open>On the engine in which A and B are matched, with a service that accepts the swap.\<close>

theorem status_after_settlement_witness:
  "executeMatch node (engine_matched True) (match1 0 1) ''exec-1'' (1/4) swap_ok now9 =
     (engine_settled True, Inr (execution1 ''exec-1'' NaN),
      [swapRequest node (engine_matched True) (match1 0 1) (1/4)]) \<and>
   nullifier (heap (engine_matched True) ! buyOrder (match1 0 1)) = JStr ''nA'' \<and>
   nullifier (heap (engine_matched True) ! sellOrder (match1 0 1)) = JStr ''nB'' \<and>
   map_option side (checkMatchStatus (engine_settled True) (JStr ''nA'')) = Some ''buy'' \<and>
   map_option side (checkMatchStatus (engine_settled True) (JStr ''nB'')) = Some ''sell'' \<and>
   map_option fillAmount (checkMatchStatus (engine_settled True) (JStr ''nA'')) =
     Some (matchedAmountOf node (engine_matched True) (match1 0 1))"
proof -
  have n: "nullifier (heap (engine_matched True) ! buyOrder (match1 0 1)) = JStr ''nA''"
          "nullifier (heap (engine_matched True) ! sellOrder (match1 0 1)) = JStr ''nB''"
    by (simp_all add: engine_matched_def match1_def ordA_def ordB_def)
  from status_after_settlement[OF executeMatch_AB_ok]
  have "(\<exists>rec. checkMatchStatus (engine_settled True) (JStr ''nB'') = Some rec \<and> side rec = ''sell'')"
    and "(\<exists>rec. checkMatchStatus (engine_settled True) (JStr ''nA'') = Some rec \<and> side rec = ''buy'' \<and>
                fillAmount rec = matchedAmountOf node (engine_matched True) (match1 0 1))"
    unfolding n by auto
  then show ?thesis
    using n executeMatch_AB_ok by auto
qed

subsection \<open>A settlement that fails (C1)\<close>

text \<open>
  C1, as stated, fails in its last part. The engine does not keep nullifiers from being
  used again, and \<open>checkMatchStatus\<close> only looks the nullifier up. In \<open>world_reuse\<close> the
  orders of the match reuse the nullifiers of two orders settled before; the settlement
  of the match is rejected by the service, and \<open>checkMatchStatus\<close> of the buy order's
  nullifier still returns the record of the earlier execution.
\<close>

theorem failed_settlement_status_counterexample:
  "anoncoinService (eng world_reuse) \<and>
   fst (snd (executeMatch node (eng world_reuse) (snd (timers world_reuse ! 0)) ''exec-2'' (1/4) swap_rejects now9))
      = Inl (SwapError ''rejected'') \<and>
   \<not> (checkMatchStatus
         (fst (executeMatch node (eng world_reuse) (snd (timers world_reuse ! 0)) ''exec-2'' (1/4) swap_rejects now9))
         (nullifier (heap (eng world_reuse) ! buyOrder (snd (timers world_reuse ! 0))))
       = None)"
proof -
  have w: "eng world_reuse = engine_reuse" "snd (timers world_reuse ! 0) = match1 2 3"
    by (simp_all add: world_reuse_eq)
  have sv: "anoncoinService engine_reuse"
    by (simp add: engine_reuse_def engine_settled_def engine_matched_def newEngine_def)
  have rj: "swap_rejects (swapRequest node engine_reuse (match1 2 3) (1/4)) = Inl (SwapError ''rejected'')"
    by (simp add: swap_rejects_def)
  have n: "nullifier (heap engine_reuse ! buyOrder (match1 2 3)) = JStr ''nA''"
    by (simp add: engine_reuse_def match1_def ordA_def)
  have pm: "pendingMatches engine_reuse (JStr ''nA'') \<noteq> None"
    by (simp add: engine_reuse_def engine_settled_def)
  show ?thesis
    unfolding w executeMatch_swap_fails[where executeSwap = swap_rejects and err = "SwapError ''rejected''", OF sv rj] fst_conv snd_conv n checkMatchStatus_def
    using sv pm by simp
qed

text \<open>
  C1, amended. For every match whose settlement call to the external executor throws,
  \<open>executeMatch\<close> rethrows the error, both orders of the match have status \<open>'pending'\<close>
  afterwards (also after the \<open>catch\<close> of the timer callback), and no execution record is
  created: \<open>pendingMatches\<close>, the order books and the counters are unchanged, so
  \<open>checkMatchStatus\<close> of either order's nullifier returns what it returned before the call,
  which is none unless an execution was recorded earlier under the same nullifier.
\<close>

theorem settlement_failure_reverts:
  assumes "anoncoinService s" and "executeSwap (swapRequest rt s m random) = Inl err"
    and "buyOrder m < length (heap s)" and "sellOrder m < length (heap s)"
  shows "\<exists>s'.
      executeMatch rt s m executionId random executeSwap now = (s', Inl err, [swapRequest rt s m random]) \<and>
      status (heap s' ! buyOrder m) = ''pending'' \<and> status (heap s' ! sellOrder m) = ''pending'' \<and>
      pendingMatches s' = pendingMatches s \<and>
      checkMatchStatus s' (nullifier (heap s' ! buyOrder m)) = checkMatchStatus s (nullifier (heap s ! buyOrder m)) \<and>
      checkMatchStatus s' (nullifier (heap s' ! sellOrder m)) = checkMatchStatus s (nullifier (heap s ! sellOrder m)) \<and>
      orderBooks s' = orderBooks s \<and> totalMatches s' = totalMatches s \<and> totalExecuted s' = totalExecuted s \<and>
      status (heap (timerCallback rt s m executionId random executeSwap now) ! buyOrder m) = ''pending'' \<and>
      status (heap (timerCallback rt s m executionId random executeSwap now) ! sellOrder m) = ''pending'' \<and>
      pendingMatches (timerCallback rt s m executionId random executeSwap now) = pendingMatches s"
proof -
  let ?h = "set_status (set_status (heap s) (buyOrder m) ''pending'') (sellOrder m) ''pending''"
  have em: "executeMatch rt s m executionId random executeSwap now =
      (s\<lparr>heap := ?h\<rparr>, Inl err, [swapRequest rt s m random])"
    using assms(1,2) by (rule executeMatch_swap_fails)
  have st: "status (?h ! buyOrder m) = ''pending''" "status (?h ! sellOrder m) = ''pending''"
    using status_set_pending[OF assms(3,4)] by simp_all
  have nul: "nullifier (?h ! buyOrder m) = nullifier (heap s ! buyOrder m)"
            "nullifier (?h ! sellOrder m) = nullifier (heap s ! sellOrder m)"
    by (simp_all add: nth_set_status)
  have tc: "timerCallback rt s m executionId random executeSwap now =
      s\<lparr>heap := set_status (set_status ?h (buyOrder m) ''pending'') (sellOrder m) ''pending''\<rparr>"
    by (simp add: timerCallback_def em)
  have st2: "status (set_status (set_status ?h (buyOrder m) ''pending'') (sellOrder m) ''pending'' ! buyOrder m) = ''pending''"
            "status (set_status (set_status ?h (buyOrder m) ''pending'') (sellOrder m) ''pending'' ! sellOrder m) = ''pending''"
    using status_set_pending[of "buyOrder m" ?h "sellOrder m" "''pending''"] assms(3,4) by simp_all
  show ?thesis
    apply (rule exI[of _ "s\<lparr>heap := ?h\<rparr>"])
    apply (intro conjI)
              apply (rule em)
    using st nul st2 by (simp_all add: checkMatchStatus_def tc)
qed

text \<open>
  On the engine in which A and B are matched, with a service that rejects the swap: both
  orders are pending again and neither nullifier has a status record.
\<close>

theorem settlement_failure_reverts_witness:
  "anoncoinService (engine_matched True) \<and>
   swap_rejects (swapRequest node (engine_matched True) (match1 0 1) (1/4)) = Inl (SwapError ''rejected'') \<and>
   fst (snd (executeMatch node (engine_matched True) (match1 0 1) ''exec-1'' (1/4) swap_rejects now9))
      = Inl (SwapError ''rejected'') \<and>
   status (heap (fst (executeMatch node (engine_matched True) (match1 0 1) ''exec-1'' (1/4) swap_rejects now9)) ! 0)
      = ''pending'' \<and>
   status (heap (fst (executeMatch node (engine_matched True) (match1 0 1) ''exec-1'' (1/4) swap_rejects now9)) ! 1)
      = ''pending'' \<and>
   checkMatchStatus (fst (executeMatch node (engine_matched True) (match1 0 1) ''exec-1'' (1/4) swap_rejects now9))
      (JStr ''nA'') = None \<and>
   checkMatchStatus (fst (executeMatch node (engine_matched True) (match1 0 1) ''exec-1'' (1/4) swap_rejects now9))
      (JStr ''nB'') = None"
proof -
  have sv: "anoncoinService (engine_matched True)"
    by (simp add: engine_matched_def newEngine_def)
  have rj: "swap_rejects (swapRequest node (engine_matched True) (match1 0 1) (1/4)) = Inl (SwapError ''rejected'')"
    by (simp add: swap_rejects_def)
  have v: "buyOrder (match1 0 1) < length (heap (engine_matched True))"
          "sellOrder (match1 0 1) < length (heap (engine_matched True))"
    by (simp_all add: engine_matched_def match1_def)
  have none: "pendingMatches (engine_matched True) = Map.empty"
    by (simp add: engine_matched_def newEngine_def)
  from settlement_failure_reverts[where executeSwap = swap_rejects and err = "SwapError ''rejected''"
          and executionId = "''exec-1''" and now = now9, OF sv rj v] obtain s' where
    s': "executeMatch node (engine_matched True) (match1 0 1) ''exec-1'' (1/4) swap_rejects now9 =
           (s', Inl (SwapError ''rejected''), [swapRequest node (engine_matched True) (match1 0 1) (1/4)])"
        "status (heap s' ! buyOrder (match1 0 1)) = ''pending''"
        "status (heap s' ! sellOrder (match1 0 1)) = ''pending''"
        "pendingMatches s' = pendingMatches (engine_matched True)"
    by blast
  show ?thesis
    using sv rj s' none by (simp add: checkMatchStatus_def match1_def)
qed

subsection \<open>The execution price (C6)\<close>



lemma world_PQ_eq: "world_PQ = \<lparr>eng = engine_PQ, timers = [(1000, match1 0 1)]\<rparr>"
proof -
  let ?e2 = "(newEngine False 5000)\<lparr>heap := [ordP ''pending'', ordQ ''pending''],
                      orderBooks := [(JStr ''T'', [0, 1])], totalOrders := 2\<rparr>"
  have s2: "run node (newWorld False 5000) [Submit (Some order_P) ''id-P'' 1 1, Submit (Some order_Q) ''id-Q'' 2 2] =
      \<lparr>eng = ?e2, timers = []\<rparr>"
    by (simp add: run_def newWorld_def submitOrder_def newEngine_def order_P_def order_Q_def Let_def ordP_def ordQ_def)
  have c: "cycleToken node draws0 0 ?e2 (JStr ''T'') [0, 1] =
      (?e2\<lparr>heap := mark {0, 1} (heap ?e2)\<rparr>, [match1 0 1], [(1000, match1 0 1)])"
    by (rule cycleToken_pair)
       (simp_all add: isPending_def isBuy_def ordP_def ordQ_def side_AA side_AQ newEngine_def)
  have m: "mark {0, 1} (heap ?e2) = [ordP ''matched'', ordQ ''matched'']"
    unfolding mark_def by (simp add: ordP_def ordQ_def)
  have "run node (newWorld False 5000)
       ([Submit (Some order_P) ''id-P'' 1 1, Submit (Some order_Q) ''id-Q'' 2 2] @ [Cycle draws0]) =
      apply_event node \<lparr>eng = ?e2, timers = []\<rparr> (Cycle draws0)"
    unfolding run_def foldl_append s2[unfolded run_def] by simp
  also have "\<dots> = \<lparr>eng = ?e2\<lparr>heap := mark {0, 1} (heap ?e2)\<rparr>, timers = [(1000, match1 0 1)]\<rparr>"
    using c by (simp add: runMatchingCycle_def)
  finally show ?thesis
    unfolding world_PQ_def m engine_PQ_def by simp
qed







subsection \<open>What the operations preserve\<close>

lemma heap_keeps_refl: "heap_keeps h h"
  by (simp add: heap_keeps_def)

lemma heap_keeps_trans: "heap_keeps h h' \<Longrightarrow> heap_keeps h' h'' \<Longrightarrow> heap_keeps h h''"
  by (simp add: heap_keeps_def)

lemma heap_keeps_set_status: "heap_keeps h (set_status h r st)"
  by (simp add: heap_keeps_def nth_set_status)

lemma heap_keeps_matchStep:
  "heap_keeps h (fst acc) \<Longrightarrow> heap_keeps h (fst (matchStep tok B S uuid now acc i))"
  unfolding matchStep_def fst_conv
  by (blast intro: heap_keeps_trans heap_keeps_set_status)

lemma heap_keeps_foldl:
  "heap_keeps h (fst acc) \<Longrightarrow> heap_keeps h (fst (foldl (matchStep tok B S uuid now) acc is))"
  by (induction "is" arbitrary: acc) (simp_all add: heap_keeps_matchStep)

lemma findMatches_keeps:
  "heap_keeps (heap s) (heap (fst (findMatches rt s tok orders rb rs uuid now)))"
  "orderBooks (fst (findMatches rt s tok orders rb rs uuid now)) = orderBooks s"
  by (simp_all add: findMatches_def Let_def heap_keeps_foldl heap_keeps_refl)

lemma cycleToken_keeps:
  "heap_keeps (heap s) (heap (fst (cycleToken rt d k s tok orders)))"
  "orderBooks (fst (cycleToken rt d k s tok orders)) = orderBooks s"
proof -
  obtain s' ms where f: "findMatches rt s tok orders (randomBuy d k) (randomSell d k) (matchUuid d k) (matchNow d k) = (s', ms)"
    by (cases "findMatches rt s tok orders (randomBuy d k) (randomSell d k) (matchUuid d k) (matchNow d k)")
  have "heap_keeps (heap s) (heap (fst (findMatches rt s tok orders (randomBuy d k) (randomSell d k) (matchUuid d k) (matchNow d k))))"
    and "orderBooks (fst (findMatches rt s tok orders (randomBuy d k) (randomSell d k) (matchUuid d k) (matchNow d k))) = orderBooks s"
    by (rule findMatches_keeps)+
  then have k: "heap_keeps (heap s) (heap s')" "orderBooks s' = orderBooks s"
    by (simp_all add: f)
  show "heap_keeps (heap s) (heap (fst (cycleToken rt d k s tok orders)))"
    using k by (simp add: cycleToken_def f heap_keeps_refl)
  show "orderBooks (fst (cycleToken rt d k s tok orders)) = orderBooks s"
    using k by (simp add: cycleToken_def f)
qed

lemma cycleLoop_keeps:
  "heap_keeps (heap s) (heap (fst (cycleLoop rt d k books s ts))) \<and>
   orderBooks (fst (cycleLoop rt d k books s ts)) = orderBooks s"
proof (induction books arbitrary: k s ts)
  case Nil
  then show ?case by (simp add: heap_keeps_refl)
next
  case (Cons b books)
  obtain tok orders where b: "b = (tok, orders)" by (cases b)
  obtain s' ms st where c: "cycleToken rt d k s tok orders = (s', ms, st)"
    by (cases "cycleToken rt d k s tok orders")
  have "heap_keeps (heap s) (heap (fst (cycleToken rt d k s tok orders)))"
    and "orderBooks (fst (cycleToken rt d k s tok orders)) = orderBooks s"
    by (rule cycleToken_keeps)+
  then have 1: "heap_keeps (heap s) (heap s')" "orderBooks s' = orderBooks s"
    by (simp_all add: c)
  from Cons.IH[where k = "Suc k" and s = s' and ts = "ts @ st"] 1 show ?case
    by (auto simp: b c intro: heap_keeps_trans)
qed

lemma keeps_inv:
  assumes "heap_keeps (heap s) (heap s')" "orderBooks s' = orderBooks s"
  shows "refs_valid s \<Longrightarrow> refs_valid s'" and "nullifiers_unique s \<Longrightarrow> nullifiers_unique s'"
  using assms by (simp_all add: refs_valid_def nullifiers_unique_def heap_keeps_def)

lemma set_update_subset: "set (AList.update k v al) \<subseteq> insert (k, v) (set al)"
  by (induction al) auto

lemma distinct_map_splice1: "distinct (map f xs) \<Longrightarrow> distinct (map f (splice1 xs i))"
proof (cases "i < length xs")
  case True
  assume d: "distinct (map f xs)"
  have "xs = take i xs @ xs ! i # drop (Suc i) xs"
    using True by (rule id_take_nth_drop)
  then have "map f xs = map f (take i xs) @ f (xs ! i) # map f (drop (Suc i) xs)"
    by (metis list.simps(9) map_append)
  with d have "distinct (map f (take i xs) @ f (xs ! i) # map f (drop (Suc i) xs))" by simp
  then show ?thesis by (auto simp: splice1_def)
next
  case False
  then show "distinct (map f xs) \<Longrightarrow> distinct (map f (splice1 xs i))"
    by (simp add: splice1_def)
qed

lemma set_splice1: "set (splice1 xs i) \<subseteq> set xs"
  unfolding splice1_def using set_take_subset[of i xs] set_drop_subset[of "Suc i" xs] by auto

lemma cancelOrder_inv:
  "refs_valid s \<Longrightarrow> refs_valid (fst (cancelOrder s n c))"
  "nullifiers_unique s \<Longrightarrow> nullifiers_unique (fst (cancelOrder s n c))"
proof -
  show "refs_valid s \<Longrightarrow> refs_valid (fst (cancelOrder s n c))"
  proof (cases "cancelLoop (heap s) n c (orderBooks s)")
    case None
    then show "refs_valid s \<Longrightarrow> ?thesis" by (simp add: cancelOrder_def)
  next
    case (Some books')
    from cancelLoop_Some[OF Some] obtain pre tok orders post i where
      *: "orderBooks s = pre @ (tok, orders) # post" "books' = pre @ (tok, splice1 orders i) # post" by blast
    assume "refs_valid s"
    then show ?thesis
      using Some * set_splice1[of orders i] by (auto simp: cancelOrder_def refs_valid_def)
  qed
  show "nullifiers_unique s \<Longrightarrow> nullifiers_unique (fst (cancelOrder s n c))"
  proof (cases "cancelLoop (heap s) n c (orderBooks s)")
    case None
    then show "nullifiers_unique s \<Longrightarrow> ?thesis" by (simp add: cancelOrder_def)
  next
    case (Some books')
    from cancelLoop_Some[OF Some] obtain pre tok orders post i where
      *: "orderBooks s = pre @ (tok, orders) # post" "books' = pre @ (tok, splice1 orders i) # post" by blast
    assume "nullifiers_unique s"
    then show ?thesis
      using Some * by (auto simp: cancelOrder_def nullifiers_unique_def distinct_map_splice1)
  qed
qed

lemma removeMatchedOrders_inv:
  "refs_valid s \<Longrightarrow> refs_valid (removeMatchedOrders s m)"
  "nullifiers_unique s \<Longrightarrow> nullifiers_unique (removeMatchedOrders s m)"
proof -
  show "refs_valid s \<Longrightarrow> refs_valid (removeMatchedOrders s m)"
  proof (cases "map_of (orderBooks s) (m_tokenAddress m)")
    case None
    then show "refs_valid s \<Longrightarrow> ?thesis" by (simp add: removeMatchedOrders_def)
  next
    case (Some orders)
    then have mem: "(m_tokenAddress m, orders) \<in> set (orderBooks s)" by (rule map_of_SomeD)
    assume "refs_valid s"
    then show ?thesis
      using Some mem set_update_subset[of "m_tokenAddress m" _ "orderBooks s"]
      by (fastforce simp: removeMatchedOrders_def refs_valid_def)
  qed
  show "nullifiers_unique s \<Longrightarrow> nullifiers_unique (removeMatchedOrders s m)"
  proof (cases "map_of (orderBooks s) (m_tokenAddress m)")
    case None
    then show "nullifiers_unique s \<Longrightarrow> ?thesis" by (simp add: removeMatchedOrders_def)
  next
    case (Some orders)
    then have mem: "(m_tokenAddress m, orders) \<in> set (orderBooks s)" by (rule map_of_SomeD)
    assume "nullifiers_unique s"
    then show ?thesis
      using Some mem set_update_subset[of "m_tokenAddress m" _ "orderBooks s"]
      by (fastforce simp: removeMatchedOrders_def nullifiers_unique_def distinct_map_filter)
  qed
qed

lemma submitOrder_valid:
  assumes "validateEncryptedOrder (Some eo)"
  shows "fst (submitOrder s (Some eo) orderId ts now) =
     s\<lparr>heap := heap s @ [\<lparr>order_id = orderId, encryptedPayload = payload eo,
                           commitment = eo_commitment eo, nullifier = eo_nullifier eo,
                           tokenAddress = eo_tokenAddress eo, timestamp = ts,
                           status = ''pending'', encryptedSide = eo_encryptedSide eo\<rparr>],
       orderBooks := AList.update (eo_tokenAddress eo)
                       (bookOf s (eo_tokenAddress eo) @ [length (heap s)]) (orderBooks s),
       totalOrders := totalOrders s + 1\<rparr>"
  using assms
  by (cases "map_of (orderBooks s) (eo_tokenAddress eo)")
     (simp_all add: submitOrder_def Let_def bookOf_def update_conv')

lemma submitOrder_invalid:
  "\<not> validateEncryptedOrder eo \<Longrightarrow> fst (submitOrder s eo orderId ts now) = s"
  by (cases eo) (simp_all add: submitOrder_def)

lemma bookOf_cases:
  "bookOf s tok = [] \<or> (tok, bookOf s tok) \<in> set (orderBooks s)"
proof (cases "map_of (orderBooks s) tok")
  case None
  then show ?thesis by (simp add: bookOf_def)
next
  case (Some orders)
  then have "(tok, orders) \<in> set (orderBooks s)" by (rule map_of_SomeD)
  with Some show ?thesis by (simp add: bookOf_def)
qed

lemma bookOf_subset: "refs_valid s \<Longrightarrow> \<forall>r\<in>set (bookOf s tok). r < length (heap s)"
  using bookOf_cases[of s tok] by (auto simp: refs_valid_def)

lemma bookOf_distinct:
  "nullifiers_unique s \<Longrightarrow> distinct (map (\<lambda>r. nullifier (heap s ! r)) (bookOf s tok))"
  using bookOf_cases[of s tok] by (auto simp: nullifiers_unique_def)

lemma submitOrder_inv:
  assumes "refs_valid s" "nullifiers_unique s" "fresh_submit s (Submit eo orderId ts now)"
  shows "refs_valid (fst (submitOrder s eo orderId ts now)) \<and>
         nullifiers_unique (fst (submitOrder s eo orderId ts now))"
proof (cases "validateEncryptedOrder eo")
  case False
  with assms show ?thesis by (simp add: submitOrder_invalid)
next
  case True
  then obtain e where eo: "eo = Some e" by (cases eo) simp_all
  let ?tok = "eo_tokenAddress e"
  let ?ord = "\<lparr>order_id = orderId, encryptedPayload = payload e,
                           commitment = eo_commitment e, nullifier = eo_nullifier e,
                           tokenAddress = eo_tokenAddress e, timestamp = ts,
                           status = ''pending'', encryptedSide = eo_encryptedSide e\<rparr>"
  let ?h = "heap s @ [?ord]"
  let ?bs = "AList.update ?tok (bookOf s ?tok @ [length (heap s)]) (orderBooks s)"
  have st: "fst (submitOrder s eo orderId ts now) =
        s\<lparr>heap := ?h, orderBooks := ?bs, totalOrders := totalOrders s + 1\<rparr>"
    using True unfolding eo by (rule submitOrder_valid)
  have old: "\<forall>r\<in>set (bookOf s ?tok). r < length (heap s)"
    using assms(1) by (rule bookOf_subset)
  have fresh: "eo_nullifier e \<notin> (\<lambda>r. nullifier (heap s ! r)) ` set (bookOf s ?tok)"
    using assms(3) True by (simp add: eo)
  have ent: "\<And>b. b \<in> set ?bs \<Longrightarrow> b \<in> set (orderBooks s) \<or> b = (?tok, bookOf s ?tok @ [length (heap s)])"
    using set_update_subset[of ?tok "bookOf s ?tok @ [length (heap s)]" "orderBooks s"] by blast
  have nth_old: "\<And>r. r < length (heap s) \<Longrightarrow> ?h ! r = heap s ! r"
    by (simp add: nth_append)
  have v: "refs_valid (s\<lparr>heap := ?h, orderBooks := ?bs, totalOrders := totalOrders s + 1\<rparr>)"
    unfolding refs_valid_def
  proof (intro ballI)
    fix b r assume b: "b \<in> set (orderBooks (s\<lparr>heap := ?h, orderBooks := ?bs, totalOrders := totalOrders s + 1\<rparr>))"
      and r: "r \<in> set (snd b)"
    from b have "b \<in> set ?bs" by simp
    from ent[OF this] r assms(1) old
    have "r < length (heap s) \<or> r = length (heap s)"
      by (auto simp: refs_valid_def)
    then show "r < length (heap (s\<lparr>heap := ?h, orderBooks := ?bs, totalOrders := totalOrders s + 1\<rparr>))"
      by auto
  qed
  have u: "nullifiers_unique (s\<lparr>heap := ?h, orderBooks := ?bs, totalOrders := totalOrders s + 1\<rparr>)"
    unfolding nullifiers_unique_def
  proof (intro ballI)
    fix b assume "b \<in> set (orderBooks (s\<lparr>heap := ?h, orderBooks := ?bs, totalOrders := totalOrders s + 1\<rparr>))"
    then have "b \<in> set ?bs" by simp
    from ent[OF this]
    have "distinct (map (\<lambda>r. nullifier (?h ! r)) (snd b))"
    proof
      assume m: "b \<in> set (orderBooks s)"
      with assms(1) have "\<forall>r\<in>set (snd b). r < length (heap s)" by (simp add: refs_valid_def)
      then have eq: "map (\<lambda>r. nullifier (?h ! r)) (snd b) = map (\<lambda>r. nullifier (heap s ! r)) (snd b)"
        by (intro map_cong refl) (simp add: nth_old)
      from m assms(2) have "distinct (map (\<lambda>r. nullifier (heap s ! r)) (snd b))"
        by (simp add: nullifiers_unique_def)
      then show ?thesis unfolding eq .
    next
      assume b: "b = (?tok, bookOf s ?tok @ [length (heap s)])"
      have 1: "map (\<lambda>r. nullifier (?h ! r)) (bookOf s ?tok) = map (\<lambda>r. nullifier (heap s ! r)) (bookOf s ?tok)"
        using old by (intro map_cong refl) (simp add: nth_old)
      have 2: "distinct (map (\<lambda>r. nullifier (heap s ! r)) (bookOf s ?tok))"
        using assms(2) by (rule bookOf_distinct)
      have "distinct (map (\<lambda>r. nullifier (?h ! r)) (bookOf s ?tok) @ [nullifier (?h ! length (heap s))])"
        unfolding 1 using 2 fresh by simp
      then show ?thesis
        by (simp add: b)
    qed
    then show "distinct (map (\<lambda>r. nullifier (heap (s\<lparr>heap := ?h, orderBooks := ?bs, totalOrders := totalOrders s + 1\<rparr>) ! r)) (snd b))"
      by simp
  qed
  from v u show ?thesis unfolding st by simp
qed

lemma recordExecution_inv:
  "refs_valid s \<Longrightarrow> refs_valid (fst (recordExecution s m eid p a now))"
  "nullifiers_unique s \<Longrightarrow> nullifiers_unique (fst (recordExecution s m eid p a now))"
proof -
  have h: "heap (fst (recordExecution s m eid p a now)) = heap (removeMatchedOrders s m)"
    and b: "orderBooks (fst (recordExecution s m eid p a now)) = orderBooks (removeMatchedOrders s m)"
    by (simp_all add: recordExecution_state removeMatchedOrders_fields)
  show "refs_valid s \<Longrightarrow> refs_valid (fst (recordExecution s m eid p a now))"
    using removeMatchedOrders_inv(1)[of s m] by (simp add: refs_valid_def h b)
  show "nullifiers_unique s \<Longrightarrow> nullifiers_unique (fst (recordExecution s m eid p a now))"
    using removeMatchedOrders_inv(2)[of s m] by (simp add: nullifiers_unique_def h b)
qed

lemma set_status_inv:
  "refs_valid s \<Longrightarrow> refs_valid (s\<lparr>heap := set_status (set_status (heap s) x st) y st\<rparr>)"
  "nullifiers_unique s \<Longrightarrow> nullifiers_unique (s\<lparr>heap := set_status (set_status (heap s) x st) y st\<rparr>)"
proof -
  have k: "heap_keeps (heap s) (heap (s\<lparr>heap := set_status (set_status (heap s) x st) y st\<rparr>))"
    by (simp add: heap_keeps_def nth_set_status)
  have b: "orderBooks (s\<lparr>heap := set_status (set_status (heap s) x st) y st\<rparr>) = orderBooks s" by simp
  show "refs_valid s \<Longrightarrow> refs_valid (s\<lparr>heap := set_status (set_status (heap s) x st) y st\<rparr>)"
    by (rule keeps_inv(1)[OF k b])
  show "nullifiers_unique s \<Longrightarrow> nullifiers_unique (s\<lparr>heap := set_status (set_status (heap s) x st) y st\<rparr>)"
    by (rule keeps_inv(2)[OF k b])
qed

lemma executeMatch_inv:
  assumes "refs_valid s" "nullifiers_unique s"
  shows "refs_valid (fst (executeMatch rt s m eid random executeSwap now)) \<and>
         nullifiers_unique (fst (executeMatch rt s m eid random executeSwap now))"
  using assms recordExecution_inv[of s m eid "executionPriceOf rt s m random" "matchedAmountOf rt s m" now]
    set_status_inv[of s "buyOrder m" "''pending''" "sellOrder m"]
  by (auto simp: executeMatch_def Let_def case_prod_beta split: sum.splits)

lemma timerCallback_inv:
  assumes "refs_valid s" "nullifiers_unique s"
  shows "refs_valid (timerCallback rt s m eid random executeSwap now) \<and>
         nullifiers_unique (timerCallback rt s m eid random executeSwap now)"
proof -
  obtain s' res calls where e: "executeMatch rt s m eid random executeSwap now = (s', res, calls)"
    by (cases "executeMatch rt s m eid random executeSwap now")
  from executeMatch_inv[OF assms, of rt m eid random executeSwap now] e
  have i: "refs_valid s'" "nullifiers_unique s'" by simp_all
  show ?thesis
    using i set_status_inv[of s' "buyOrder m" "''pending''" "sellOrder m"]
    by (cases res) (simp_all add: timerCallback_def e)
qed

lemma apply_event_inv:
  assumes "refs_valid (eng w)" "nullifiers_unique (eng w)" "fresh_submit (eng w) ev"
  shows "refs_valid (eng (apply_event rt w ev)) \<and> nullifiers_unique (eng (apply_event rt w ev))"
proof (cases ev)
  case (Submit eo orderId ts now)
  with assms show ?thesis by (simp add: submitOrder_inv)
next
  case (Cancel n c)
  with assms show ?thesis by (simp add: cancelOrder_inv)
next
  case (Cycle d)
  obtain s' ts' where r: "runMatchingCycle rt d (eng w) (timers w) = (s', ts')"
    by (cases "runMatchingCycle rt d (eng w) (timers w)")
  have "heap_keeps (heap (eng w)) (heap (fst (cycleLoop rt d 0 (orderBooks (eng w)) (eng w) (timers w)))) \<and>
        orderBooks (fst (cycleLoop rt d 0 (orderBooks (eng w)) (eng w) (timers w))) = orderBooks (eng w)"
    by (rule cycleLoop_keeps)
  then have k: "heap_keeps (heap (eng w)) (heap s')" "orderBooks s' = orderBooks (eng w)"
    using r by (simp_all add: runMatchingCycle_def)
  from keeps_inv[OF k] assms(1,2) show ?thesis
    by (simp add: Cycle r)
next
  case (Fire k eid random executeSwap now)
  with assms timerCallback_inv[OF assms(1,2), of rt "snd (timers w ! k)" eid random executeSwap now]
  show ?thesis by simp
qed

lemma run_inv:
  "refs_valid (eng w) \<Longrightarrow> nullifiers_unique (eng w) \<Longrightarrow> fresh_run rt w evs \<Longrightarrow>
   refs_valid (eng (run rt w evs)) \<and> nullifiers_unique (eng (run rt w evs))"
proof (induction evs arbitrary: w)
  case Nil
  then show ?case by (simp add: run_def)
next
  case (Cons ev evs)
  from Cons.prems have f: "fresh_submit (eng w) ev" "fresh_run rt (apply_event rt w ev) evs" by simp_all
  from apply_event_inv[OF Cons.prems(1,2) f(1), of rt]
  have "refs_valid (eng (apply_event rt w ev))" "nullifiers_unique (eng (apply_event rt w ev))" by simp_all
  from Cons.IH[OF this f(2)] show ?case by (simp add: run_def)
qed

lemma newWorld_inv: "refs_valid (eng (newWorld service interval))" "nullifiers_unique (eng (newWorld service interval))"
  by (simp_all add: newWorld_def newEngine_def refs_valid_def nullifiers_unique_def)

lemma engine_A_eq:
  "engine_A = (newEngine False 5000)\<lparr>heap := [ordA ''id-A'' ''pending'' 1],
     orderBooks := [(JStr ''T'', [0])], totalOrders := 1\<rparr>"
  by (simp add: engine_A_def submitOrder_def newEngine_def order_A_def Let_def ordA_def)

lemma submit_duplicate:
  assumes "validateEncryptedOrder (Some eo)"
    and "refs_valid s"
    and "eo_nullifier eo \<in> (\<lambda>r. nullifier (heap s ! r)) ` set (bookOf s (eo_tokenAddress eo))"
  shows "\<not> nullifiers_unique (fst (submitOrder s (Some eo) orderId ts now))"
proof -
  let ?tok = "eo_tokenAddress eo"
  let ?ord = "\<lparr>order_id = orderId, encryptedPayload = payload eo,
                           commitment = eo_commitment eo, nullifier = eo_nullifier eo,
                           tokenAddress = eo_tokenAddress eo, timestamp = ts,
                           status = ''pending'', encryptedSide = eo_encryptedSide eo\<rparr>"
  let ?h = "heap s @ [?ord]"
  let ?bk = "bookOf s ?tok @ [length (heap s)]"
  let ?bs = "AList.update ?tok ?bk (orderBooks s)"
  let ?s' = "s\<lparr>heap := ?h, orderBooks := ?bs, totalOrders := totalOrders s + 1\<rparr>"
  have st: "fst (submitOrder s (Some eo) orderId ts now) = ?s'"
    using assms(1) by (rule submitOrder_valid)
  have "map_of ?bs ?tok = Some ?bk" by (simp add: update_conv')
  then have mem: "(?tok, ?bk) \<in> set ?bs"
    by (rule map_of_SomeD)
  have old: "\<forall>r\<in>set (bookOf s ?tok). r < length (heap s)"
    using assms(2) by (rule bookOf_subset)
  have 1: "map (\<lambda>r. nullifier (?h ! r)) (bookOf s ?tok) = map (\<lambda>r. nullifier (heap s ! r)) (bookOf s ?tok)"
    using old by (intro map_cong refl) (simp add: nth_append)
  have "map (\<lambda>r. nullifier (?h ! r)) ?bk =
        map (\<lambda>r. nullifier (?h ! r)) (bookOf s ?tok) @ [eo_nullifier eo]"
    by simp
  then have e: "map (\<lambda>r. nullifier (?h ! r)) ?bk =
        map (\<lambda>r. nullifier (heap s ! r)) (bookOf s ?tok) @ [eo_nullifier eo]"
    unfolding 1 .
  have nd: "\<not> distinct (map (\<lambda>r. nullifier (?h ! r)) (snd (?tok, ?bk)))"
    unfolding snd_conv e using assms(3) by simp
  from mem nd have "\<exists>b\<in>set ?bs. \<not> distinct (map (\<lambda>r. nullifier (?h ! r)) (snd b))"
    by (rule bexI[rotated])
  then have "\<not> nullifiers_unique ?s'"
    by (simp add: nullifiers_unique_def)
  then show ?thesis unfolding st .
qed

subsection \<open>Nullifier uniqueness (C7)\<close>

text \<open>
  C7, as stated, fails: \<open>submitOrder\<close> and \<open>validateEncryptedOrder\<close> never compare the
  nullifier of a new order with those in the book. After the same order is submitted
  twice, the book of its token holds two pending orders with the same nullifier.
\<close>

theorem duplicate_nullifier_counterexample:
  "\<not> nullifiers_unique
       (eng (run node (newWorld False 5000)
               [Submit (Some order_A) ''id-A'' 1 1, Submit (Some order_A) ''id-A2'' 2 2]))"
proof -
  have "run node (newWorld False 5000) [Submit (Some order_A) ''id-A'' 1 1, Submit (Some order_A) ''id-A2'' 2 2] =
      \<lparr>eng = (newEngine False 5000)\<lparr>heap := [ordA ''id-A'' ''pending'' 1, ordA ''id-A2'' ''pending'' 2],
                orderBooks := [(JStr ''T'', [0, 1])], totalOrders := 2\<rparr>, timers = []\<rparr>"
    by (simp add: run_def newWorld_def submitOrder_def newEngine_def order_A_def Let_def ordA_def)
  then show ?thesis
    by (simp add: nullifiers_unique_def ordA_def)
qed

text \<open>
  C7, amended. The engine does not check nullifiers at admission. Per-book nullifier
  uniqueness is preserved by every cancel, matching cycle and settlement, and by a submit
  whose order is rejected or whose nullifier differs from the nullifiers of the orders in
  the book of its token; so after any sequence of operations on a new engine in which
  every submit is of that kind, no two orders in the same token's book share a nullifier.
  A submit of a valid order whose nullifier is already in the book of its token breaks
  the uniqueness.
\<close>

theorem nullifier_uniqueness_preserved:
  "(refs_valid (eng w) \<and> nullifiers_unique (eng w) \<and> fresh_submit (eng w) ev \<longrightarrow>
      refs_valid (eng (apply_event rt w ev)) \<and> nullifiers_unique (eng (apply_event rt w ev)))
   \<and> (fresh_run rt (newWorld service interval) evs \<longrightarrow>
        nullifiers_unique (eng (run rt (newWorld service interval) evs)))
   \<and> (refs_valid s \<and> validateEncryptedOrder (Some eo) \<and>
      eo_nullifier eo \<in> (\<lambda>r. nullifier (heap s ! r)) ` set (bookOf s (eo_tokenAddress eo)) \<longrightarrow>
        \<not> nullifiers_unique (fst (submitOrder s (Some eo) orderId ts now)))"
  using apply_event_inv[of w ev rt]
    run_inv[OF newWorld_inv, of rt service interval evs]
    submit_duplicate[of eo s orderId ts now]
  by blast

text \<open>
  The run that submits A and B and matches them is fresh and ends in an engine with
  unique nullifiers; submitting A a second time is not fresh and breaks uniqueness.
\<close>

theorem nullifier_uniqueness_preserved_witness:
  "fresh_run node (newWorld True 5000)
      [Submit (Some order_A) ''id-A'' 1 1, Submit (Some order_B) ''id-B'' 2 2, Cycle draws0] \<and>
   nullifiers_unique (eng (world_AB True)) \<and>
   refs_valid engine_A \<and> validateEncryptedOrder (Some order_A) \<and>
   eo_nullifier order_A \<in> (\<lambda>r. nullifier (heap engine_A ! r)) ` set (bookOf engine_A (eo_tokenAddress order_A)) \<and>
   \<not> nullifiers_unique (fst (submitOrder engine_A (Some order_A) ''id-A2'' 2 2))"
proof -
  have f: "fresh_run node (newWorld True 5000)
      [Submit (Some order_A) ''id-A'' 1 1, Submit (Some order_B) ''id-B'' 2 2, Cycle draws0]"
    by (simp add: newWorld_def submitOrder_def newEngine_def order_A_def order_B_def Let_def bookOf_def)
  have v: "refs_valid engine_A" by (simp add: engine_A_eq refs_valid_def)
  have va: "validateEncryptedOrder (Some order_A)" by (simp add: order_A_def)
  have m: "eo_nullifier order_A \<in> (\<lambda>r. nullifier (heap engine_A ! r)) ` set (bookOf engine_A (eo_tokenAddress order_A))"
    by (simp add: engine_A_eq bookOf_def order_A_def ordA_def)
  from nullifier_uniqueness_preserved[of "newWorld True 5000" "Cycle draws0" node True 5000
         "[Submit (Some order_A) ''id-A'' 1 1, Submit (Some order_B) ''id-B'' 2 2, Cycle draws0]"
         engine_A order_A "''id-A2''" 2 2] f v va m
  show ?thesis
    by (simp add: world_AB_def)
qed

subsection \<open>Reachable states are well formed\<close>

text \<open>
  The hypotheses of the pairing theorem hold in every state that the engine reaches: the
  references in the books are valid and no book holds an order twice.
\<close>

lemma submitOrder_books_distinct:
  assumes "refs_valid s" "books_distinct s"
  shows "books_distinct (fst (submitOrder s eo orderId ts now))"
proof (cases "validateEncryptedOrder eo")
  case False
  with assms show ?thesis by (simp add: submitOrder_invalid)
next
  case True
  then obtain e where eo: "eo = Some e" by (cases eo) simp_all
  let ?tok = "eo_tokenAddress e"
  let ?bk = "bookOf s ?tok @ [length (heap s)]"
  have st: "orderBooks (fst (submitOrder s eo orderId ts now)) = AList.update ?tok ?bk (orderBooks s)"
    using submitOrder_valid[OF True[unfolded eo], of s orderId ts now] by (simp add: eo)
  have "\<forall>r\<in>set (bookOf s ?tok). r < length (heap s)"
    using assms(1) by (rule bookOf_subset)
  then have new: "length (heap s) \<notin> set (bookOf s ?tok)" by auto
  have "distinct (bookOf s ?tok)"
    using bookOf_cases[of s ?tok] assms(2) by (auto simp: books_distinct_def)
  with new have d: "distinct ?bk" by simp
  show ?thesis
    unfolding books_distinct_def st
  proof
    fix b assume "b \<in> set (AList.update ?tok ?bk (orderBooks s))"
    then have "b \<in> set (orderBooks s) \<or> b = (?tok, ?bk)"
      using set_update_subset[of ?tok ?bk "orderBooks s"] by blast
    with assms(2) d show "distinct (snd b)"
      by (auto simp: books_distinct_def)
  qed
qed

lemma cancelOrder_books_distinct:
  assumes "books_distinct s"
  shows "books_distinct (fst (cancelOrder s n c))"
proof (cases "cancelLoop (heap s) n c (orderBooks s)")
  case None
  with assms show ?thesis by (simp add: cancelOrder_def)
next
  case (Some books')
  from cancelLoop_Some[OF Some] obtain pre tok orders post i where
    *: "orderBooks s = pre @ (tok, orders) # post" "books' = pre @ (tok, splice1 orders i) # post" by blast
  have "distinct orders \<Longrightarrow> distinct (splice1 orders i)"
    using distinct_map_splice1[of "\<lambda>x. x" orders i] by simp
  with assms show ?thesis
    using Some * by (auto simp: cancelOrder_def books_distinct_def)
qed

lemma removeMatchedOrders_books_distinct:
  assumes "books_distinct s"
  shows "books_distinct (removeMatchedOrders s m)"
proof (cases "map_of (orderBooks s) (m_tokenAddress m)")
  case None
  with assms show ?thesis by (simp add: removeMatchedOrders_def)
next
  case (Some orders)
  then have mem: "(m_tokenAddress m, orders) \<in> set (orderBooks s)" by (rule map_of_SomeD)
  show ?thesis
    using assms Some mem set_update_subset[of "m_tokenAddress m" _ "orderBooks s"]
    by (fastforce simp: removeMatchedOrders_def books_distinct_def)
qed

lemma timerCallback_books:
  "orderBooks (timerCallback rt s m eid random executeSwap now) = orderBooks s \<or>
   orderBooks (timerCallback rt s m eid random executeSwap now) = orderBooks (removeMatchedOrders s m)"
  by (auto simp: timerCallback_def executeMatch_def Let_def case_prod_beta recordExecution_state
           split: sum.splits)

lemma apply_event_wellformed:
  assumes "refs_valid (eng w)" "books_distinct (eng w)"
  shows "refs_valid (eng (apply_event rt w ev)) \<and> books_distinct (eng (apply_event rt w ev))"
proof -
  have v: "refs_valid (eng (apply_event rt w ev))"
  proof (cases ev)
    case (Submit eo orderId ts now)
    show ?thesis
    proof (cases "validateEncryptedOrder eo")
      case False
      with assms(1) Submit show ?thesis by (simp add: submitOrder_invalid)
    next
      case True
      then obtain e where eo: "eo = Some e" by (cases eo) simp_all
      let ?tok = "eo_tokenAddress e"
      let ?bk = "bookOf (eng w) ?tok @ [length (heap (eng w))]"
      have st: "orderBooks (fst (submitOrder (eng w) eo orderId ts now)) = AList.update ?tok ?bk (orderBooks (eng w))"
        "length (heap (fst (submitOrder (eng w) eo orderId ts now))) = Suc (length (heap (eng w)))"
        using submitOrder_valid[OF True[unfolded eo], of "eng w" orderId ts now] by (simp_all add: eo)
      have old: "\<forall>r\<in>set (bookOf (eng w) ?tok). r < length (heap (eng w))"
        using assms(1) by (rule bookOf_subset)
      have "refs_valid (fst (submitOrder (eng w) eo orderId ts now))"
        unfolding refs_valid_def st
      proof (intro ballI)
        fix b r assume "b \<in> set (AList.update ?tok ?bk (orderBooks (eng w)))" and r: "r \<in> set (snd b)"
        then have "b \<in> set (orderBooks (eng w)) \<or> b = (?tok, ?bk)"
          using set_update_subset[of ?tok ?bk "orderBooks (eng w)"] by blast
        with r assms(1) old show "r < Suc (length (heap (eng w)))"
          by (auto simp: refs_valid_def less_Suc_eq)
      qed
      with Submit show ?thesis by simp
    qed
  next
    case (Cancel n c)
    with assms(1) show ?thesis by (simp add: cancelOrder_inv)
  next
    case (Cycle d)
    obtain s' ts' where r: "runMatchingCycle rt d (eng w) (timers w) = (s', ts')"
      by (cases "runMatchingCycle rt d (eng w) (timers w)")
    have "heap_keeps (heap (eng w)) (heap (fst (cycleLoop rt d 0 (orderBooks (eng w)) (eng w) (timers w)))) \<and>
        orderBooks (fst (cycleLoop rt d 0 (orderBooks (eng w)) (eng w) (timers w))) = orderBooks (eng w)"
      by (rule cycleLoop_keeps)
    then have k: "heap_keeps (heap (eng w)) (heap s')" "orderBooks s' = orderBooks (eng w)"
      using r by (simp_all add: runMatchingCycle_def)
    from keeps_inv(1)[OF k] assms(1) show ?thesis
      by (simp add: Cycle r)
  next
    case (Fire k eid random executeSwap now)
    have "refs_valid (timerCallback rt (eng w) (snd (timers w ! k)) eid random executeSwap now)"
    proof -
      let ?m = "snd (timers w ! k)"
      obtain s' res calls where e: "executeMatch rt (eng w) ?m eid random executeSwap now = (s', res, calls)"
        by (cases "executeMatch rt (eng w) ?m eid random executeSwap now")
      have "refs_valid (fst (executeMatch rt (eng w) ?m eid random executeSwap now))"
        using assms(1) recordExecution_inv(1)[of "eng w" ?m eid "executionPriceOf rt (eng w) ?m random"
                "matchedAmountOf rt (eng w) ?m" now]
          set_status_inv(1)[of "eng w" "buyOrder ?m" "''pending''" "sellOrder ?m"]
        by (auto simp: executeMatch_def Let_def case_prod_beta split: sum.splits)
      then have "refs_valid s'" by (simp add: e)
      then show ?thesis
        using set_status_inv(1)[of s' "buyOrder ?m" "''pending''" "sellOrder ?m"]
        by (cases res) (simp_all add: timerCallback_def e)
    qed
    with assms(1) Fire show ?thesis by simp
  qed
  have d: "books_distinct (eng (apply_event rt w ev))"
  proof (cases ev)
    case (Submit eo orderId ts now)
    with assms show ?thesis by (simp add: submitOrder_books_distinct)
  next
    case (Cancel n c)
    with assms(2) show ?thesis by (simp add: cancelOrder_books_distinct)
  next
    case (Cycle d)
    obtain s' ts' where r: "runMatchingCycle rt d (eng w) (timers w) = (s', ts')"
      by (cases "runMatchingCycle rt d (eng w) (timers w)")
    have "heap_keeps (heap (eng w)) (heap (fst (cycleLoop rt d 0 (orderBooks (eng w)) (eng w) (timers w)))) \<and>
        orderBooks (fst (cycleLoop rt d 0 (orderBooks (eng w)) (eng w) (timers w))) = orderBooks (eng w)"
      by (rule cycleLoop_keeps)
    then have "orderBooks s' = orderBooks (eng w)"
      using r by (simp add: runMatchingCycle_def)
    with assms(2) show ?thesis
      by (simp add: Cycle r books_distinct_def)
  next
    case (Fire k eid random executeSwap now)
    from timerCallback_books[of rt "eng w" "snd (timers w ! k)" eid random executeSwap now]
      removeMatchedOrders_books_distinct[OF assms(2), of "snd (timers w ! k)"] assms(2)
    have "books_distinct (timerCallback rt (eng w) (snd (timers w ! k)) eid random executeSwap now)"
      by (auto simp: books_distinct_def)
    with assms(2) Fire show ?thesis by simp
  qed
  from v d show ?thesis ..
qed

lemma reachable_wellformed:
  "refs_valid (eng (run rt (newWorld service interval) evs)) \<and>
   books_distinct (eng (run rt (newWorld service interval) evs))"
proof -
  have "refs_valid (eng w) \<Longrightarrow> books_distinct (eng w) \<Longrightarrow>
        refs_valid (eng (run rt w evs)) \<and> books_distinct (eng (run rt w evs))" for w
  proof (induction evs arbitrary: w)
    case Nil
    then show ?case by (simp add: run_def)
  next
    case (Cons ev evs)
    from apply_event_wellformed[OF Cons.prems, of rt ev]
    have "refs_valid (eng (apply_event rt w ev))" "books_distinct (eng (apply_event rt w ev))" by simp_all
    from Cons.IH[OF this] show ?case by (simp add: run_def)
  qed
  moreover have "refs_valid (eng (newWorld service interval))" "books_distinct (eng (newWorld service interval))"
    by (simp_all add: newWorld_def newEngine_def refs_valid_def books_distinct_def)
  ultimately show ?thesis by blast
qed

end
